theory Spec2Isabelle
  imports Complex_Main "HOL-Library.Char_ord" "HOL-Library.List_Lexorder"
begin

section \<open>Python values, exceptions and string helpers\<close>

text \<open>
  The values an \<^verbatim>\<open>argparse.Namespace\<close> attribute of this program holds. A float is
  the real number it denotes; nothing is assumed about rounding: the functions that need
  \<^verbatim>\<open>float(s)\<close> or \<^verbatim>\<open>str(f)\<close> take them as parameters. A list attribute (argparse
  \<^verbatim>\<open>nargs='+'\<close>) holds atoms.
\<close>

datatype atom = ANone | ABool bool | AInt int | AFloat real | AStr string

datatype pyval = Atom atom | PyList "atom list"

datatype cfgerr =
    MissingSectionHeaderError
  | ParsingError
  | DuplicateSectionError string
  | DuplicateOptionError string string
  | InterpolationError string string
  | NoSectionError string

datatype pyerr =
    NameError string
  | IndexError
  | KeyError string
  | AttributeError string
  | OSError string
  | ValueError
  | TypeError
  | ConfigError cfgerr
  | ArgumentError string
  | SystemExit nat
  | JSONDecodeError
  | NotModelled string

text \<open>An attribute dictionary (\<^verbatim>\<open>args.__dict__\<close>): insertion-ordered, keys distinct.\<close>

type_synonym namespace = "(string \<times> pyval) list"

definition hasattr :: "namespace \<Rightarrow> string \<Rightarrow> bool" where
  "hasattr ns k = (map_of ns k \<noteq> None)"

definition getattr :: "namespace \<Rightarrow> string \<Rightarrow> pyerr + pyval" where
  "getattr ns k = (case map_of ns k of None \<Rightarrow> Inl (AttributeError k) | Some v \<Rightarrow> Inr v)"

fun setattr :: "namespace \<Rightarrow> string \<Rightarrow> pyval \<Rightarrow> namespace" where
  "setattr [] k v = [(k, v)]"
| "setattr ((k', v') # ns) k v = (if k' = k then (k, v) # ns else (k', v') # setattr ns k v)"

text \<open>\<^verbatim>\<open>s.startswith(p)\<close>.\<close>

definition startswith :: "string \<Rightarrow> string \<Rightarrow> bool" where
  "startswith s p = (take (length p) s = p)"

text \<open>\<^verbatim>\<open>s.replace(a, b)\<close> for single characters.\<close>

definition replace_char :: "char \<Rightarrow> char \<Rightarrow> string \<Rightarrow> string" where
  "replace_char a b s = map (\<lambda>c. if c = a then b else c) s"

text \<open>\<^verbatim>\<open>s.split(c)\<close> for a single-character separator: every separator splits, empty pieces stay.\<close>

fun split_char :: "char \<Rightarrow> string \<Rightarrow> string list" where
  "split_char c [] = [[]]"
| "split_char c (x # xs) =
     (if x = c then [] # split_char c xs
      else (case split_char c xs of [] \<Rightarrow> [[x]] | p # ps \<Rightarrow> (x # p) # ps))"

definition is_space :: "char \<Rightarrow> bool" where
  "is_space c = (c \<in> set [CHR '' '', CHR 0x09, CHR 0x0A, CHR 0x0B, CHR 0x0C, CHR 0x0D])"

text \<open>\<^verbatim>\<open>s.strip()\<close> on ASCII white space.\<close>

definition strip :: "string \<Rightarrow> string" where
  "strip s = rev (dropWhile is_space (rev (dropWhile is_space s)))"

text \<open>\<^verbatim>\<open>os.path.join(a, b)\<close> on POSIX paths.\<close>

definition path_join :: "string \<Rightarrow> string \<Rightarrow> string" where
  "path_join a b =
     (if startswith b ''/'' then b
      else if a = [] \<or> last a = CHR ''/'' then a @ b
      else a @ ''/'' @ b)"

section \<open>The schema registry: \<^verbatim>\<open>SECTIONS\<close>\<close>

text \<open>
  One field descriptor of \<^verbatim>\<open>SECTIONS\<close>: the keys \<^verbatim>\<open>default\<close>, \<^verbatim>\<open>type\<close>,
  \<^verbatim>\<open>action\<close> and \<^verbatim>\<open>nargs\<close> of the source dictionary; a key the dictionary does not
  have is \<open>None\<close> (what \<^verbatim>\<open>opts.get(key, None)\<close> returns). The keys \<^verbatim>\<open>help\<close> and
  \<^verbatim>\<open>metavar\<close> only feed the usage text and are left out.
\<close>

datatype ptype = TStr | TFloat

record opts =
  opt_default :: pyval
  opt_type :: "ptype option"
  opt_action :: "string option"
  opt_nargs :: "string option"

text \<open>
  \<^verbatim>\<open>LOGS_HOME\<close> and \<^verbatim>\<open>CONFIG_FILE_NAME\<close> are computed from the home directory of the
  user, a parameter here.
\<close>

definition LOGS_HOME :: "string \<Rightarrow> string" where
  "LOGS_HOME home = path_join home ''logs''"

definition CONFIG_FILE_NAME :: "string \<Rightarrow> string" where
  "CONFIG_FILE_NAME home = path_join home ''logs/dmm.conf''"

definition str_opt :: "string \<Rightarrow> opts" where
  "str_opt d = \<lparr>opt_default = Atom (AStr d), opt_type = Some TStr, opt_action = None, opt_nargs = None\<rparr>"

definition flag_opt :: opts where
  "flag_opt = \<lparr>opt_default = Atom (ABool False), opt_type = None,
     opt_action = Some ''store_true'', opt_nargs = None\<rparr>"

definition SECTIONS :: "string \<Rightarrow> (string \<times> (string \<times> opts) list) list" where
  "SECTIONS home =
    [(''general'',
        [(''config'', str_opt (CONFIG_FILE_NAME home)),
         (''logs-home'', str_opt (LOGS_HOME home)),
         (''verbose'', flag_opt),
         (''testing'', flag_opt),
         (''force'', flag_opt)]),
     (''energy'',
        [(''energy'', \<lparr>opt_default = Atom (AInt (- 1)), opt_type = Some TFloat,
            opt_action = None, opt_nargs = None\<rparr>)]),
     (''energyioc'',
        [(''energyioc-prefix'', str_opt ''2bm:MCTOptics:'')])]"

definition MONO_PARAMS :: "string list" where
  "MONO_PARAMS = [''energy'', ''energyioc'']"

definition PINK_PARAMS :: "string list" where
  "PINK_PARAMS = [''energyioc'']"

definition NICE_NAMES :: "string list" where
  "NICE_NAMES = [''General'', ''DMM Energy'', ''Energy IOC'']"

section \<open>The config loader: \<^verbatim>\<open>config_to_list\<close>\<close>

text \<open>
  What \<^verbatim>\<open>configparser.ConfigParser.read([name])\<close> finds at a path. \<^verbatim>\<open>read\<close>
  catches \<^verbatim>\<open>OSError\<close> only: a file that cannot be opened is skipped (it is not in the
  returned list), a file that opens and is not well-formed INI raises a
  \<^verbatim>\<open>configparser.Error\<close>. A file that parses is seen through \<^verbatim>\<open>has_option\<close> and
  \<^verbatim>\<open>get\<close>: per section, the options visible there (its own and those of
  \<^verbatim>\<open>[DEFAULT]\<close>) with what \<^verbatim>\<open>get\<close> returns for them, the interpolated value or the
  interpolation error it raises.
\<close>

type_synonym inifile = "(string \<times> (string \<times> (pyerr + string)) list) list"

datatype file_state = Unreadable | Malformed cfgerr | Parsed inifile

type_synonym filesystem = "string \<Rightarrow> file_state"

definition cp_read :: "filesystem \<Rightarrow> string \<Rightarrow> pyerr + (string list \<times> inifile)" where
  "cp_read fs name =
     (case fs name of
        Unreadable \<Rightarrow> Inr ([], [])
      | Malformed e \<Rightarrow> Inl (ConfigError e)
      | Parsed ini \<Rightarrow> Inr ([name], ini))"

definition has_option :: "inifile \<Rightarrow> string \<Rightarrow> string \<Rightarrow> bool" where
  "has_option config section name =
     (case map_of config section of None \<Rightarrow> False | Some items \<Rightarrow> map_of items name \<noteq> None)"

definition cp_get :: "inifile \<Rightarrow> string \<Rightarrow> string \<Rightarrow> pyerr + string" where
  "cp_get config section name =
     (case map_of config section of
        None \<Rightarrow> Inl (ConfigError (NoSectionError section))
      | Some items \<Rightarrow> (case map_of items name of None \<Rightarrow> Inl (KeyError name) | Some r \<Rightarrow> r))"

text \<open>The body of the two loops of \<^verbatim>\<open>config_to_list\<close> for one field whose value was read.\<close>

definition emit :: "string \<Rightarrow> opts \<Rightarrow> string \<Rightarrow> string list \<Rightarrow> string list" where
  "emit name opts val result =
     (if val \<noteq> [] \<and> val \<noteq> ''None'' then
        (let action = opt_action opts;
             result1 = (if action = Some ''store_true'' \<and> val = ''True''
                        then result @ [''--'' @ name] else result)
         in if \<not> action = Some ''store_true'' then
              (if opt_nargs opts = Some ''+''
               then (result1 @ [''--'' @ name]) @ map strip (split_char CHR '','' val)
               else result1 @ [''--'' @ name @ ''='' @ val])
            else result1)
      else result)"

fun fields_loop ::
  "inifile \<Rightarrow> string \<Rightarrow> (string \<times> opts) list \<Rightarrow> string list \<Rightarrow> pyerr + string list" where
  "fields_loop config section [] result = Inr result"
| "fields_loop config section ((name, opts) # rest) result =
     (if has_option config section name then
        (case cp_get config section name of
           Inl e \<Rightarrow> Inl e
         | Inr val \<Rightarrow> fields_loop config section rest (emit name opts val result))
      else fields_loop config section rest result)"

fun sections_loop ::
  "inifile \<Rightarrow> (string \<times> (string \<times> opts) list) list \<Rightarrow> string list \<Rightarrow> pyerr + string list" where
  "sections_loop config [] result = Inr result"
| "sections_loop config ((section, items) # rest) result =
     (case fields_loop config section items result of
        Inl e \<Rightarrow> Inl e
      | Inr result' \<Rightarrow> sections_loop config rest result')"

text \<open>\<^verbatim>\<open>config_to_list(config_name)\<close>; \<open>home\<close> is the home directory \<^verbatim>\<open>SECTIONS\<close> is built on.\<close>

definition config_to_list :: "string \<Rightarrow> filesystem \<Rightarrow> string \<Rightarrow> pyerr + string list" where
  "config_to_list home fs config_name =
     (case cp_read fs config_name of
        Inl e \<Rightarrow> Inl e
      | Inr (read_ok, config) \<Rightarrow>
          if read_ok = [] then Inr [] else sections_loop config (SECTIONS home) [])"

section \<open>The argument parser handed to \<^verbatim>\<open>parse_known_args\<close>\<close>

text \<open>
  \<^verbatim>\<open>argparse\<close> for the parsers this module builds: \<^verbatim>\<open>argparse.ArgumentParser()\<close> with its
  \<^verbatim>\<open>-h/--help\<close> action, and one \<^verbatim>\<open>add_argument('--name', **opts)\<close> per schema field, which
  gives a \<^verbatim>\<open>store\<close> action (one value, converted by \<^verbatim>\<open>type\<close>) or a \<^verbatim>\<open>store_true\<close>
  action. Sub-commands are not modelled.
\<close>

datatype akind = Store "ptype option" | StoreTrue | Help

record action =
  option_strings :: "string list"
  dest :: "string option"
  kind :: akind
  dflt :: "pyval option"

type_synonym parser = "action list"

definition ArgumentParser :: parser where
  "ArgumentParser = [\<lparr>option_strings = [''-h'', ''--help''], dest = None, kind = Help, dflt = None\<rparr>]"

text \<open>
  The call \<^verbatim>\<open>argparse.ArgumentParser()\<close>: without \<^verbatim>\<open>prog\<close> the constructor reads
  \<^verbatim>\<open>sys.argv[0]\<close>, which raises \<^verbatim>\<open>IndexError\<close> when \<^verbatim>\<open>sys.argv\<close> is empty.
\<close>

definition ArgumentParser_init :: "string list \<Rightarrow> pyerr + parser" where
  "ArgumentParser_init argv = (case argv of [] \<Rightarrow> Inl IndexError | prog # _ \<Rightarrow> Inr ArgumentParser)"

definition option_string_actions :: "parser \<Rightarrow> (string \<times> action) list" where
  "option_string_actions p = concat (map (\<lambda>a. map (\<lambda>s. (s, a)) (option_strings a)) p)"

text \<open>
  \<^verbatim>\<open>parser.add_argument('--' + name, **opts)\<close>: the destination is the name with \<^verbatim>\<open>-\<close>
  replaced by \<^verbatim>\<open>_\<close>; an option string that is registered already is a conflict;
  \<^verbatim>\<open>store_true\<close> takes neither \<^verbatim>\<open>type\<close> nor \<^verbatim>\<open>nargs\<close>.
\<close>

definition add_argument :: "parser \<Rightarrow> string \<Rightarrow> opts \<Rightarrow> pyerr + parser" where
  "add_argument p name opts =
     (let opt = ''--'' @ name in
      if opt_action opts = Some ''store_true'' then
        (if opt_type opts \<noteq> None \<or> opt_nargs opts \<noteq> None then Inl TypeError
         else if map_of (option_string_actions p) opt \<noteq> None then Inl (ArgumentError opt)
         else Inr (p @ [\<lparr>option_strings = [opt], dest = Some (replace_char CHR ''-'' CHR ''_'' name),
                 kind = StoreTrue, dflt = Some (opt_default opts)\<rparr>]))
      else if opt_action opts \<noteq> None \<or> opt_nargs opts \<noteq> None then Inl (NotModelled ''add_argument'')
      else if map_of (option_string_actions p) opt \<noteq> None then Inl (ArgumentError opt)
      else Inr (p @ [\<lparr>option_strings = [opt], dest = Some (replace_char CHR ''-'' CHR ''_'' name),
              kind = Store (opt_type opts), dflt = Some (opt_default opts)\<rparr>]))"

text \<open>
  The negative-number pattern of argparse, \<^verbatim>\<open>^-\d+$|^-\d*\.\d+$\<close>, on a string of ASCII
  characters; \<^verbatim>\<open>$\<close> also matches before a newline that ends the string.
\<close>

definition is_digit :: "char \<Rightarrow> bool" where
  "is_digit c = (c \<in> set ''0123456789'')"

definition negative_number :: "string \<Rightarrow> bool" where
  "negative_number s =
     (case s of
        [] \<Rightarrow> False
      | c # r \<Rightarrow> c = CHR ''-'' \<and>
          ((r \<noteq> [] \<and> list_all is_digit r) \<or>
           (case dropWhile is_digit r of
              [] \<Rightarrow> False
            | d # f \<Rightarrow> d = CHR ''.'' \<and> f \<noteq> [] \<and> list_all is_digit f)))"

definition is_negative_number :: "string \<Rightarrow> bool" where
  "is_negative_number s =
     (negative_number s \<or> (s \<noteq> [] \<and> last s = CHR 0x0A \<and> negative_number (butlast s)))"

text \<open>\<^verbatim>\<open>s.split('=', 1)\<close> of a string that holds \<^verbatim>\<open>=\<close>.\<close>

definition split_eq :: "string \<Rightarrow> string \<times> string" where
  "split_eq s = (takeWhile (\<lambda>c. c \<noteq> CHR ''='') s, tl (dropWhile (\<lambda>c. c \<noteq> CHR ''='') s))"

text \<open>
  \<^verbatim>\<open>_get_option_tuples\<close>: the registered option strings a token abbreviates, each with
  the option string, whether an \<^verbatim>\<open>=\<close> separated the explicit argument, and the explicit
  argument the token carries.
\<close>

definition get_option_tuples ::
  "parser \<Rightarrow> string \<Rightarrow> (action \<times> string \<times> bool \<times> string option) list" where
  "get_option_tuples p arg =
     (if startswith arg ''--'' then
        (let (option_prefix, sep, explicit_arg) =
               (if CHR ''='' \<in> set arg then (fst (split_eq arg), True, Some (snd (split_eq arg)))
                else (arg, False, None))
         in map (\<lambda>(s, a). (a, s, sep, explicit_arg))
              (filter (\<lambda>(s, a). startswith s option_prefix) (option_string_actions p)))
      else
        concat (map (\<lambda>(s, a).
            if s = take 2 arg then [(a, s, False, Some (drop 2 arg))]
            else if startswith s arg then [(a, s, False, None)]
            else [])
          (option_string_actions p)))"

text \<open>
  What \<^verbatim>\<open>_parse_optional\<close> returns: \<^verbatim>\<open>None\<close> (a positional), the ambiguity error, the
  tuple without an action (an unknown option), or the tuple
  \<^verbatim>\<open>(action, option_string, sep, explicit_arg)\<close>, where of \<^verbatim>\<open>sep\<close> only its truth value
  is kept.
\<close>

datatype tok = Positional | Ambiguous | Unknown | Optional action string bool "string option"

text \<open>\<^verbatim>\<open>_parse_optional\<close>: how the parser reads one token that is not \<^verbatim>\<open>--\<close>.\<close>

definition parse_optional :: "parser \<Rightarrow> string \<Rightarrow> tok" where
  "parse_optional p arg =
     (if arg = [] then Positional
      else if hd arg \<noteq> CHR ''-'' then Positional
      else (case map_of (option_string_actions p) arg of
          Some a \<Rightarrow> Optional a arg False None
        | None \<Rightarrow>
           if length arg = 1 then Positional
           else (case (if CHR ''='' \<in> set arg
                       then map_of (option_string_actions p) (fst (split_eq arg)) else None) of
               Some a \<Rightarrow> Optional a (fst (split_eq arg)) True (Some (snd (split_eq arg)))
             | None \<Rightarrow>
                (case get_option_tuples p arg of
                   [] \<Rightarrow>
                     if is_negative_number arg
                        \<and> \<not> list_ex is_negative_number (map fst (option_string_actions p))
                     then Positional
                     else if CHR '' '' \<in> set arg then Positional
                     else Unknown
                 | [(a, s, sep, e)] \<Rightarrow> Optional a s sep e
                 | _ \<Rightarrow> Ambiguous))))"

text \<open>\<^verbatim>\<open>_get_value\<close>: the \<^verbatim>\<open>type\<close> callable on an argument string; \<^verbatim>\<open>float\<close> is a parameter.\<close>

definition get_value :: "(string \<Rightarrow> real option) \<Rightarrow> ptype option \<Rightarrow> string \<Rightarrow> pyerr + pyval" where
  "get_value float_of ty s =
     (case ty of
        Some TFloat \<Rightarrow> (case float_of s of None \<Rightarrow> Inl (SystemExit 2) | Some f \<Rightarrow> Inr (Atom (AFloat f)))
      | _ \<Rightarrow> Inr (Atom (AStr s)))"

definition store :: "action \<Rightarrow> pyval \<Rightarrow> namespace \<Rightarrow> namespace" where
  "store a v ns = (case dest a of None \<Rightarrow> ns | Some d \<Rightarrow> setattr ns d v)"

text \<open>
  The \<^verbatim>\<open>while\<close> loop of \<^verbatim>\<open>consume_optional\<close> for an option with an explicit argument
  \<open>e\<close>. A \<^verbatim>\<open>store\<close> action takes the explicit argument. An action without
  argument (\<^verbatim>\<open>store_true\<close>, \<^verbatim>\<open>help\<close>) under a single-dash option string reads the
  explicit argument as further single-dash options (\<^verbatim>\<open>-xyz\<close>), unless it came after
  \<^verbatim>\<open>=\<close> or starts with \<^verbatim>\<open>-\<close>; under a double-dash option string the explicit
  argument is an error. The result is the list of actions to take, each with its argument,
  and the action that is left without explicit argument, if there is one.
\<close>

function explicit_arguments ::
  "parser \<Rightarrow> action \<Rightarrow> string \<Rightarrow> bool \<Rightarrow> string
     \<Rightarrow> pyerr + ((action \<times> string option) list \<times> action option)" where
  "explicit_arguments p a option_string sep e =
     (case kind a of
        Store ty \<Rightarrow> Inr ([(a, Some e)], None)
      | _ \<Rightarrow>
         if length option_string < 2 then Inl IndexError
         else if option_string ! 1 \<noteq> CHR ''-'' \<and> e \<noteq> [] then
           (if sep \<or> hd e = CHR ''-'' then Inl (SystemExit 2)
            else (case map_of (option_string_actions p) [hd option_string, hd e] of
                None \<Rightarrow> Inr ([(a, None)], None)
              | Some a' \<Rightarrow>
                 if tl e = [] then Inr ([(a, None)], Some a')
                 else (case (if hd (tl e) = CHR ''=''
                             then explicit_arguments p a' [hd option_string, hd e] True (tl (tl e))
                             else explicit_arguments p a' [hd option_string, hd e] False (tl e)) of
                     Inl err \<Rightarrow> Inl err
                   | Inr (tuples, pending) \<Rightarrow> Inr ((a, None) # tuples, pending))))
         else Inl (SystemExit 2))"
  by pat_completeness auto
termination
  by (relation "measure (\<lambda>(p, a, option_string, sep, e). length e)") auto

declare explicit_arguments.simps [simp del]

text \<open>
  \<^verbatim>\<open>take_action\<close>: \<^verbatim>\<open>help\<close> prints the help and exits with status 0,
  \<^verbatim>\<open>store_true\<close> stores \<^verbatim>\<open>True\<close>, \<^verbatim>\<open>store\<close> stores its converted argument
  (without an argument \<^verbatim>\<open>_get_values\<close> gives the empty list; the loop above never asks
  for that).
\<close>

definition take_action ::
  "(string \<Rightarrow> real option) \<Rightarrow> action \<times> string option \<Rightarrow> namespace \<Rightarrow> pyerr + namespace" where
  "take_action float_of t ns =
     (case kind (fst t) of
        Help \<Rightarrow> Inl (SystemExit 0)
      | StoreTrue \<Rightarrow> Inr (store (fst t) (Atom (ABool True)) ns)
      | Store ty \<Rightarrow>
         (case snd t of
            None \<Rightarrow> Inr (store (fst t) (PyList []) ns)
          | Some s \<Rightarrow>
             (case get_value float_of ty s of
                Inl err \<Rightarrow> Inl err
              | Inr v \<Rightarrow> Inr (store (fst t) v ns))))"

fun take_actions ::
  "(string \<Rightarrow> real option) \<Rightarrow> (action \<times> string option) list \<Rightarrow> namespace \<Rightarrow> pyerr + namespace" where
  "take_actions float_of [] ns = Inr ns"
| "take_actions float_of (t # tuples) ns =
     (case take_action float_of t ns of
        Inl err \<Rightarrow> Inl err
      | Inr ns' \<Rightarrow> take_actions float_of tuples ns')"

text \<open>
  \<^verbatim>\<open>consume_optional\<close> on the option \<open>a\<close> found at the head of the tokens; \<open>ts\<close> are
  the tokens after it. The result is the actions to take and the number of following tokens
  they use. An option without explicit argument is matched against the tokens that follow:
  a \<^verbatim>\<open>store\<close> action needs the next token to be an argument (\<^verbatim>\<open>A\<close> in the pattern: not
  \<^verbatim>\<open>--\<close>, and \<^verbatim>\<open>_parse_optional\<close> gives \<^verbatim>\<open>None\<close> for it), anything else is the error
  \<^verbatim>\<open>expected one argument\<close>. Every error of the loop comes before any action is taken.
\<close>

definition consume_optional ::
  "parser \<Rightarrow> action \<Rightarrow> string \<Rightarrow> bool \<Rightarrow> string option \<Rightarrow> string list
     \<Rightarrow> pyerr + ((action \<times> string option) list \<times> nat)" where
  "consume_optional p a option_string sep explicit_arg ts =
     (case (case explicit_arg of
              None \<Rightarrow> Inr ([], Some a)
            | Some e \<Rightarrow> explicit_arguments p a option_string sep e) of
        Inl err \<Rightarrow> Inl err
      | Inr (tuples, pending) \<Rightarrow>
         (case pending of
            None \<Rightarrow> Inr (tuples, 0)
          | Some a' \<Rightarrow>
             (case kind a' of
                Store ty \<Rightarrow>
                  (case ts of
                     [] \<Rightarrow> Inl (SystemExit 2)
                   | v # ts' \<Rightarrow>
                      if v \<noteq> ''--'' \<and> parse_optional p v = Positional
                      then Inr (tuples @ [(a', Some v)], 1)
                      else Inl (SystemExit 2))
              | _ \<Rightarrow> Inr (tuples @ [(a', None)], 0))))"

text \<open>
  The parsing loop, token by token. \<^verbatim>\<open>--\<close> ends the options: what follows is positional,
  and this parser has no positional argument, so it goes to the extras, as a positional
  token and an unknown option do. Every error of argparse is \<^verbatim>\<open>parser.error\<close>, which
  exits with status 2.
\<close>

function consume ::
  "(string \<Rightarrow> real option) \<Rightarrow> parser \<Rightarrow> string list \<Rightarrow> namespace \<Rightarrow> pyerr + namespace" where
  "consume float_of p [] ns = Inr ns"
| "consume float_of p (t # ts) ns =
     (if t = ''--'' then Inr ns
      else (case parse_optional p t of
          Positional \<Rightarrow> consume float_of p ts ns
        | Unknown \<Rightarrow> consume float_of p ts ns
        | Ambiguous \<Rightarrow> Inl (SystemExit 2)
        | Optional a option_string sep explicit_arg \<Rightarrow>
           (case consume_optional p a option_string sep explicit_arg ts of
              Inl err \<Rightarrow> Inl err
            | Inr (tuples, arg_count) \<Rightarrow>
               (case take_actions float_of tuples ns of
                  Inl err \<Rightarrow> Inl err
                | Inr ns' \<Rightarrow> consume float_of p (drop arg_count ts) ns'))))"
  by pat_completeness auto
termination
  by (relation "measure (\<lambda>(float_of, p, ts, ns). length ts)") auto

text \<open>The namespace starts with the default of every action, in registration order.\<close>

fun init_namespace :: "parser \<Rightarrow> namespace \<Rightarrow> namespace" where
  "init_namespace [] ns = ns"
| "init_namespace (a # p) ns =
     init_namespace p
       (case (dest a, dflt a) of
          (Some d, Some v) \<Rightarrow> if hasattr ns d then ns else setattr ns d v
        | _ \<Rightarrow> ns)"

text \<open>
  After the loop a default that is a string, and is still what the attribute holds, goes
  through the action's \<^verbatim>\<open>type\<close>.
\<close>

fun convert_defaults ::
  "(string \<Rightarrow> real option) \<Rightarrow> parser \<Rightarrow> namespace \<Rightarrow> pyerr + namespace" where
  "convert_defaults float_of [] ns = Inr ns"
| "convert_defaults float_of (a # p) ns =
     (case (dest a, dflt a, kind a) of
        (Some d, Some (Atom (AStr s)), Store ty) \<Rightarrow>
          if map_of ns d = Some (Atom (AStr s)) then
            (case get_value float_of ty s of
               Inl err \<Rightarrow> Inl err
             | Inr v \<Rightarrow> convert_defaults float_of p (setattr ns d v))
          else convert_defaults float_of p ns
      | _ \<Rightarrow> convert_defaults float_of p ns)"

text \<open>
  \<^verbatim>\<open>parser.parse_known_args(args)[0]\<close>. Every token before \<^verbatim>\<open>--\<close> is classified before
  any action runs, so an ambiguous abbreviation anywhere is an error.
\<close>

definition ap_parse_known_args ::
  "(string \<Rightarrow> real option) \<Rightarrow> parser \<Rightarrow> string list \<Rightarrow> pyerr + namespace" where
  "ap_parse_known_args float_of p args =
     (if list_ex (\<lambda>t. parse_optional p t = Ambiguous) (takeWhile (\<lambda>t. t \<noteq> ''--'') args)
      then Inl (SystemExit 2)
      else (case consume float_of p args (init_namespace p []) of
          Inl e \<Rightarrow> Inl e
        | Inr ns \<Rightarrow> convert_defaults float_of p ns))"

section \<open>\<^verbatim>\<open>Params\<close>: building the parser from the schema\<close>

text \<open>\<^verbatim>\<open>Params.__init__\<close>: \<^verbatim>\<open>self.sections = sections + ('general', )\<close>.\<close>

definition Params :: "string list \<Rightarrow> string list" where
  "Params sections = sections @ [''general'']"

fun add_names ::
  "(string \<times> opts) list \<Rightarrow> string list \<Rightarrow> parser \<Rightarrow> pyerr + parser" where
  "add_names items [] parser = Inr parser"
| "add_names items (name # names) parser =
     (case map_of items name of
        None \<Rightarrow> Inl (KeyError name)
      | Some opts \<Rightarrow>
         (case add_argument parser name opts of
            Inl e \<Rightarrow> Inl e
          | Inr parser' \<Rightarrow> add_names items names parser'))"

text \<open>
  \<^verbatim>\<open>Params.add_parser_args\<close> (and \<^verbatim>\<open>add_arguments\<close>, which returns the parser it filled):
  the sections of \<^verbatim>\<open>self\<close> in order, the names of a section sorted.
\<close>

fun add_parser_args :: "string \<Rightarrow> string list \<Rightarrow> parser \<Rightarrow> pyerr + parser" where
  "add_parser_args home [] parser = Inr parser"
| "add_parser_args home (section # rest) parser =
     (case map_of (SECTIONS home) section of
        None \<Rightarrow> Inl (KeyError section)
      | Some items \<Rightarrow>
         (case add_names items (sort (map fst items)) parser of
            Inl e \<Rightarrow> Inl e
          | Inr parser' \<Rightarrow> add_parser_args home rest parser'))"

definition add_arguments :: "string \<Rightarrow> string list \<Rightarrow> parser \<Rightarrow> pyerr + parser" where
  "add_arguments home self parser = add_parser_args home self parser"

text \<open>
  \<^verbatim>\<open>Params.get_defaults\<close>: a fresh parser (built while \<^verbatim>\<open>sys.argv\<close> is \<open>argv\<close>), filled,
  parsing the empty argument list. \<^verbatim>\<open>parse_args\<close> is \<^verbatim>\<open>parse_known_args\<close> with an
  error for tokens that are left over, and the empty list leaves none.
\<close>

definition get_defaults ::
  "(string \<Rightarrow> real option) \<Rightarrow> string \<Rightarrow> string list \<Rightarrow> string list \<Rightarrow> pyerr + namespace" where
  "get_defaults float_of home argv self =
     (case ArgumentParser_init argv of
        Inl e \<Rightarrow> Inl e
      | Inr parser \<Rightarrow>
         (case add_arguments home self parser of
            Inl e \<Rightarrow> Inl e
          | Inr parser' \<Rightarrow> ap_parse_known_args float_of parser' []))"

section \<open>The argument merger: \<^verbatim>\<open>get_config_name\<close> and \<^verbatim>\<open>parse_known_args\<close>\<close>

text \<open>\<^verbatim>\<open>s.split(sep)\<close> for a separator that is not empty.\<close>

function split_str :: "string \<Rightarrow> string \<Rightarrow> string list" where
  "split_str sep [] = [[]]"
| "split_str sep (c # cs) =
     (if sep \<noteq> [] \<and> startswith (c # cs) sep
      then [] # split_str sep (drop (length sep) (c # cs))
      else (case split_str sep cs of [] \<Rightarrow> [[c]] | p # ps \<Rightarrow> (c # p) # ps))"
  by pat_completeness auto
termination
  by (relation "measure (\<lambda>(sep, s). length s)") auto

text \<open>
  \<^verbatim>\<open>get_config_name\<close>: the loop over \<^verbatim>\<open>enumerate(sys.argv)\<close>, here over the arguments that
  are left, so that \<^verbatim>\<open>sys.argv[i + 1]\<close> is the head of the rest. Both index expressions can
  raise \<^verbatim>\<open>IndexError\<close>.
\<close>

fun get_config_name :: "string \<Rightarrow> string list \<Rightarrow> pyerr + string" where
  "get_config_name home [] = Inr (CONFIG_FILE_NAME home)"
| "get_config_name home (arg # rest) =
     (if startswith arg ''--config'' then
        (if arg = ''--config'' then
           (case rest of [] \<Rightarrow> Inl IndexError | nxt # _ \<Rightarrow> Inr nxt)
         else
           (case split_str ''--config'' arg of
              _ # name # _ \<Rightarrow>
                (case name of
                   [] \<Rightarrow> Inl IndexError
                 | c # cs \<Rightarrow> if c = CHR ''='' then Inr cs else Inr name)
            | _ \<Rightarrow> Inl IndexError))
      else get_config_name home rest)"

text \<open>
  \<^verbatim>\<open>parse_known_args(parser, subparser)\<close>; \<^verbatim>\<open>sys.argv\<close> is the argument \<open>argv\<close>. In the
  \<^verbatim>\<open>else\<close> branch \<^verbatim>\<open>values\<close> is the empty string, which argparse takes as the empty list
  of tokens.
\<close>

definition parse_known_args ::
  "(string \<Rightarrow> real option) \<Rightarrow> string \<Rightarrow> filesystem \<Rightarrow> string list \<Rightarrow> parser \<Rightarrow> bool
     \<Rightarrow> pyerr + namespace" where
  "parse_known_args float_of home fs argv parser subparser =
     (if length argv > 1 then
        (let subparser_value = (if subparser then [argv ! 1] else []) in
         case get_config_name home argv of
           Inl e \<Rightarrow> Inl e
         | Inr name \<Rightarrow>
            (case config_to_list home fs name of
               Inl e \<Rightarrow> Inl e
             | Inr config_values \<Rightarrow>
                 ap_parse_known_args float_of parser (subparser_value @ config_values @ tl argv)))
      else ap_parse_known_args float_of parser [])"

section \<open>The config writer: \<^verbatim>\<open>write\<close>\<close>

text \<open>
  A \<^verbatim>\<open>ConfigParser\<close> that is filled by \<^verbatim>\<open>add_section\<close> and \<^verbatim>\<open>set\<close>: the sections in
  the order they were added, each with its options in the order they were first set.
\<close>

type_synonym cpstate = "(string \<times> (string \<times> string) list) list"

text \<open>\<^verbatim>\<open>d[k] = v\<close> on an insertion-ordered dictionary.\<close>

fun dict_set :: "('k \<times> 'v) list \<Rightarrow> 'k \<Rightarrow> 'v \<Rightarrow> ('k \<times> 'v) list" where
  "dict_set [] k v = [(k, v)]"
| "dict_set ((k', v') # d) k v = (if k' = k then (k, v) # d else (k', v') # dict_set d k v)"

definition add_section :: "cpstate \<Rightarrow> string \<Rightarrow> pyerr + cpstate" where
  "add_section config section =
     (if section = ''DEFAULT'' then Inl ValueError
      else if map_of config section \<noteq> None then Inl (ConfigError (DuplicateSectionError section))
      else Inr (config @ [(section, [])]))"

text \<open>\<^verbatim>\<open>optionxform\<close> is \<^verbatim>\<open>str.lower\<close> (here on ASCII letters).\<close>

definition lower_char :: "char \<Rightarrow> char" where
  "lower_char c =
     (if 65 \<le> (of_char c :: nat) \<and> (of_char c :: nat) \<le> 90 then char_of (of_char c + 32 :: nat) else c)"

definition optionxform :: "string \<Rightarrow> string" where
  "optionxform s = map lower_char s"

text \<open>
  \<^verbatim>\<open>BasicInterpolation.before_set\<close>: with every \<^verbatim>\<open>%%\<close> and then every
  \<^verbatim>\<open>%(name)s\<close> taken out, the value may hold no \<^verbatim>\<open>%\<close>, or \<^verbatim>\<open>set\<close> raises
  \<^verbatim>\<open>ValueError\<close>.
\<close>

fun remove_pp :: "string \<Rightarrow> string" where
  "remove_pp (a # b # r) =
     (if a = CHR ''%'' \<and> b = CHR ''%'' then remove_pp r else a # remove_pp (b # r))"
| "remove_pp s = s"

definition keycre_match :: "string \<Rightarrow> string option" where
  "keycre_match s =
     (case s of
        a # b # r \<Rightarrow>
          if a = CHR ''%'' \<and> b = CHR ''(''
             \<and> takeWhile (\<lambda>c. c \<noteq> CHR '')'') r \<noteq> []
             \<and> startswith (dropWhile (\<lambda>c. c \<noteq> CHR '')'') r) '')s''
          then Some (drop 2 (dropWhile (\<lambda>c. c \<noteq> CHR '')'') r))
          else None
      | _ \<Rightarrow> None)"

lemma keycre_match_shorter: "keycre_match s = Some r \<Longrightarrow> length r < length s"
proof -
  assume m: "keycre_match s = Some r"
  then obtain a b t where s: "s = a # b # t"
    by (cases s; cases "tl s") (auto simp: keycre_match_def)
  with m have "r = drop 2 (dropWhile (\<lambda>c. c \<noteq> CHR '')'') t)"
    by (simp add: keycre_match_def split: if_splits)
  moreover have "length (dropWhile (\<lambda>c. c \<noteq> CHR '')'') t) \<le> length t"
    by (rule length_dropWhile_le)
  ultimately show ?thesis using s by simp
qed

function sub_keycre :: "string \<Rightarrow> string" where
  "sub_keycre [] = []"
| "sub_keycre (c # cs) =
     (case keycre_match (c # cs) of
        Some r \<Rightarrow> sub_keycre r
      | None \<Rightarrow> c # sub_keycre cs)"
  by pat_completeness auto
termination
  by (relation "measure length") (auto dest: keycre_match_shorter)

definition before_set_ok :: "string \<Rightarrow> bool" where
  "before_set_ok v = (CHR ''%'' \<notin> set (sub_keycre (remove_pp v)))"

text \<open>\<^verbatim>\<open>config.set(section, option, value)\<close> for a string \<^verbatim>\<open>value\<close>.\<close>

definition cp_set :: "cpstate \<Rightarrow> string \<Rightarrow> string \<Rightarrow> string \<Rightarrow> pyerr + cpstate" where
  "cp_set config section option val =
     (if \<not> before_set_ok val then Inl ValueError
      else (case map_of config section of
          None \<Rightarrow> Inl (ConfigError (NoSectionError section))
        | Some items \<Rightarrow> Inr (dict_set config section (dict_set items (optionxform option) val))))"

text \<open>
  \<^verbatim>\<open>config.write(f)\<close>: per section the header line, one \<^verbatim>\<open>key = value\<close> line per
  option (a newline inside a value is followed by a tab) and an empty line.
\<close>

definition replace_nl :: "string \<Rightarrow> string" where
  "replace_nl v = concat (map (\<lambda>c. if c = CHR 0x0A then [CHR 0x0A, CHR 0x09] else [c]) v)"

definition write_section :: "string \<times> (string \<times> string) list \<Rightarrow> string" where
  "write_section s =
     ''['' @ fst s @ '']'' @ [CHR 0x0A] @
     concat (map (\<lambda>kv. fst kv @ '' = '' @ replace_nl (snd kv) @ [CHR 0x0A]) (snd s)) @
     [CHR 0x0A]"

definition cp_write :: "cpstate \<Rightarrow> string" where
  "cp_write config = concat (map write_section config)"

text \<open>\<^verbatim>\<open>str(value)\<close> of an atom; \<^verbatim>\<open>str\<close> of a float is the parameter \<open>str_float\<close>.\<close>

function str_nat :: "nat \<Rightarrow> string" where
  "str_nat n = (if n < 10 then [char_of (48 + n)] else str_nat (n div 10) @ [char_of (48 + n mod 10)])"
  by pat_completeness auto
termination
  by (relation "measure id") auto

definition str_int :: "int \<Rightarrow> string" where
  "str_int i = (if i < 0 then ''-'' @ str_nat (nat (- i)) else str_nat (nat i))"

fun py_str :: "(real \<Rightarrow> string) \<Rightarrow> atom \<Rightarrow> string" where
  "py_str str_float ANone = ''None''"
| "py_str str_float (ABool b) = (if b then ''True'' else ''False'')"
| "py_str str_float (AInt i) = str_int i"
| "py_str str_float (AFloat f) = str_float f"
| "py_str str_float (AStr s) = s"

text \<open>\<^verbatim>\<open>', '.join(value)\<close>: every item has to be a string.\<close>

fun join_list :: "atom list \<Rightarrow> pyerr + string" where
  "join_list [] = Inr []"
| "join_list (AStr s # rest) =
     (case join_list rest of
        Inl e \<Rightarrow> Inl e
      | Inr t \<Rightarrow> Inr (if rest = [] then s else s @ '', '' @ t))"
| "join_list (a # rest) = Inl TypeError"

text \<open>
  The value \<^verbatim>\<open>write\<close> computes for one field. \<^verbatim>\<open>args\<close> is \<open>None\<close> or a namespace (an
  object, so true), \<^verbatim>\<open>sections\<close> is \<open>None\<close> or a tuple (true when not empty). \<^verbatim>\<open>str\<close> of
  a list default is outside the model; no field of \<^verbatim>\<open>SECTIONS\<close> has one.
\<close>

definition field_value ::
  "namespace option \<Rightarrow> string list option \<Rightarrow> string \<Rightarrow> string \<Rightarrow> opts \<Rightarrow> pyerr + atom" where
  "field_value args sections section name opts =
     (if args \<noteq> None \<and> sections \<noteq> None \<and> the sections \<noteq> [] \<and> section \<in> set (the sections)
         \<and> hasattr (the args) (replace_char CHR ''-'' CHR ''_'' name)
      then
        (case getattr (the args) (replace_char CHR ''-'' CHR ''_'' name) of
           Inl e \<Rightarrow> Inl e
         | Inr (PyList xs) \<Rightarrow> (case join_list xs of Inl e \<Rightarrow> Inl e | Inr s \<Rightarrow> Inr (AStr s))
         | Inr (Atom a) \<Rightarrow> Inr a)
      else
        (case opt_default opts of
           Atom ANone \<Rightarrow> Inr (AStr [])
         | Atom a \<Rightarrow> Inr a
         | PyList xs \<Rightarrow> Inl (NotModelled ''str of a list'')))"

fun write_fields ::
  "(real \<Rightarrow> string) \<Rightarrow> namespace option \<Rightarrow> string list option \<Rightarrow> string
     \<Rightarrow> (string \<times> opts) list \<Rightarrow> cpstate \<Rightarrow> pyerr + cpstate" where
  "write_fields str_float args sections section [] config = Inr config"
| "write_fields str_float args sections section ((name, opts) # rest) config =
     (case field_value args sections section name opts of
        Inl e \<Rightarrow> Inl e
      | Inr val \<Rightarrow>
         (let prefix = (if val = AStr [] then ''# '' else []) in
          if name \<noteq> ''config'' then
            (case cp_set config section (prefix @ name) (py_str str_float val) of
               Inl e \<Rightarrow> Inl e
             | Inr config' \<Rightarrow> write_fields str_float args sections section rest config')
          else write_fields str_float args sections section rest config))"

fun write_sections ::
  "(real \<Rightarrow> string) \<Rightarrow> namespace option \<Rightarrow> string list option
     \<Rightarrow> (string \<times> (string \<times> opts) list) list \<Rightarrow> cpstate \<Rightarrow> pyerr + cpstate" where
  "write_sections str_float args sections [] config = Inr config"
| "write_sections str_float args sections ((section, items) # rest) config =
     (case add_section config section of
        Inl e \<Rightarrow> Inl e
      | Inr config1 \<Rightarrow>
         (case write_fields str_float args sections section items config1 of
            Inl e \<Rightarrow> Inl e
          | Inr config2 \<Rightarrow> write_sections str_float args sections rest config2))"

text \<open>
  \<^verbatim>\<open>write(config_file, args, sections)\<close>, here \<open>write_file\<close>. The parser is filled first; then the file is
  opened for writing (\<open>writable\<close> says whether \<^verbatim>\<open>open\<close> succeeds) and receives the text.
  The result is the files afterwards.
\<close>

definition write_config ::
  "(real \<Rightarrow> string) \<Rightarrow> string \<Rightarrow> namespace option \<Rightarrow> string list option \<Rightarrow> pyerr + cpstate" where
  "write_config str_float home args sections = write_sections str_float args sections (SECTIONS home) []"

definition write_file ::
  "(real \<Rightarrow> string) \<Rightarrow> string \<Rightarrow> (string \<Rightarrow> bool) \<Rightarrow> (string \<rightharpoonup> string)
     \<Rightarrow> string \<Rightarrow> namespace option \<Rightarrow> string list option \<Rightarrow> pyerr + (string \<rightharpoonup> string)" where
  "write_file str_float home writable files config_file args sections =
     (case write_config str_float home args sections of
        Inl e \<Rightarrow> Inl e
      | Inr config \<Rightarrow>
          if writable config_file then Inr (files(config_file \<mapsto> cp_write config))
          else Inl (OSError config_file))"

section \<open>The status reporter: \<^verbatim>\<open>log_values\<close>\<close>

text \<open>
  The state the two remaining functions work on: the attribute dictionary of the parameter
  object and the log. One call of \<^verbatim>\<open>log.info\<close> or \<^verbatim>\<open>log.warning\<close> appends one
  record: the level, the message (or its format string) and the values formatted into it.
\<close>

datatype level = INFO | WARNING

datatype logrec = Log level string "pyval list"

record pystate =
  st_args :: namespace
  st_log :: "logrec list"

definition log_info :: "pystate \<Rightarrow> string \<Rightarrow> pyval list \<Rightarrow> pystate" where
  "log_info st msg vals = st\<lparr>st_log := st_log st @ [Log INFO msg vals]\<rparr>"

definition log_warning :: "pystate \<Rightarrow> string \<Rightarrow> pyval list \<Rightarrow> pystate" where
  "log_warning st msg vals = st\<lparr>st_log := st_log st @ [Log WARNING msg vals]\<rparr>"

text \<open>The body of the inner loop: \<^verbatim>\<open>args[entry]\<close> raises \<^verbatim>\<open>KeyError\<close> on a missing key.\<close>

definition log_entry :: "pystate \<Rightarrow> string \<Rightarrow> pyerr + pystate" where
  "log_entry st entry =
     (case map_of (st_args st) entry of
        None \<Rightarrow> Inl (KeyError entry)
      | Some x \<Rightarrow>
         (let val = (if x \<noteq> Atom ANone then x else Atom (AStr ''-'')) in
          if val = Atom (AStr ''none'') then
            Inr (log_warning st ''  {:<16} {}'' [Atom (AStr entry), val])
          else if val \<noteq> Atom (ABool False) then
            Inr (log_info st ''  {:<16} {}'' [Atom (AStr entry), val])
          else
            Inr (log_warning st ''  {:<16} {}'' [Atom (AStr entry), val])))"

fun log_entries :: "string list \<Rightarrow> pystate \<Rightarrow> pystate \<times> pyerr option" where
  "log_entries [] st = (st, None)"
| "log_entries (entry # rest) st =
     (case log_entry st entry of
        Inl e \<Rightarrow> (st, Some e)
      | Inr st' \<Rightarrow> log_entries rest st')"

fun log_sections ::
  "(string \<times> (string \<times> opts) list) list \<Rightarrow> (string \<times> string) list \<Rightarrow> pystate
     \<Rightarrow> pystate \<times> pyerr option" where
  "log_sections schema [] st = (st, None)"
| "log_sections schema ((section, name) # rest) st =
     (case map_of schema section of
        None \<Rightarrow> (st, Some (KeyError section))
      | Some items \<Rightarrow>
         (let entries = sort (filter (\<lambda>k. map_of items (replace_char CHR ''_'' CHR ''-'' k) \<noteq> None)
                                (map fst (st_args st)))
          in if entries \<noteq> [] then
               (case log_entries entries (log_info st name []) of
                  (st', Some e) \<Rightarrow> (st', Some e)
                | (st', None) \<Rightarrow> log_sections schema rest st')
             else log_sections schema rest st))"

text \<open>
  \<^verbatim>\<open>log_values(args)\<close>: the state afterwards and what the call returns, \<^verbatim>\<open>None\<close> or the
  exception it raised.
\<close>

definition log_values :: "string \<Rightarrow> pystate \<Rightarrow> pystate \<times> (pyerr + pyval)" where
  "log_values home st =
     (case log_sections (SECTIONS home) (zip (map fst (SECTIONS home)) NICE_NAMES)
             (log_warning st ''energy status start'' []) of
        (st', Some e) \<Rightarrow> (st', Inl e)
      | (st', None) \<Rightarrow> (log_warning st' ''energy status end'' [], Inr (Atom ANone)))"

section \<open>The calibration lookup: \<^verbatim>\<open>set_default_config\<close>\<close>

text \<open>
  The names the module \<^verbatim>\<open>config.py\<close> binds at its top level (its imports, its constants,
  its functions and its class) and the built-in functions and constants of Python 3. A name
  a function body reads that is neither local nor among these raises \<^verbatim>\<open>NameError\<close>.
\<close>

definition module_globals :: "string list" where
  "module_globals =
    [''os'', ''sys'', ''shutil'', ''pathlib'', ''argparse'', ''configparser'', ''np'', ''Path'',
     ''OrderedDict'', ''datetime'', ''log'', ''util'', ''epics'', ''__version__'',
     ''LOGS_HOME'', ''CONFIG_FILE_NAME'', ''data_path'', ''SECTIONS'', ''MONO_PARAMS'',
     ''PINK_PARAMS'', ''NICE_NAMES'', ''get_config_name'', ''parse_known_args'',
     ''config_to_list'', ''Params'', ''write'', ''log_values'', ''save_params_to_config'',
     ''save_current_positions_to_config'', ''set_default_config'',
     ''__name__'', ''__doc__'', ''__file__'', ''__package__'', ''__loader__'', ''__spec__'',
     ''__builtins__'']"

definition builtin_names :: "string list" where
  "builtin_names =
    [''abs'', ''aiter'', ''all'', ''anext'', ''any'', ''ascii'', ''bin'', ''bool'', ''breakpoint'',
     ''bytearray'', ''bytes'', ''callable'', ''chr'', ''classmethod'', ''compile'', ''complex'',
     ''delattr'', ''dict'', ''dir'', ''divmod'', ''enumerate'', ''eval'', ''exec'', ''filter'',
     ''float'', ''format'', ''frozenset'', ''getattr'', ''globals'', ''hasattr'', ''hash'',
     ''help'', ''hex'', ''id'', ''input'', ''int'', ''isinstance'', ''issubclass'', ''iter'',
     ''len'', ''list'', ''locals'', ''map'', ''max'', ''memoryview'', ''min'', ''next'',
     ''object'', ''oct'', ''open'', ''ord'', ''pow'', ''print'', ''property'', ''range'',
     ''repr'', ''reversed'', ''round'', ''set'', ''setattr'', ''slice'', ''sorted'',
     ''staticmethod'', ''str'', ''sum'', ''super'', ''tuple'', ''type'', ''vars'', ''zip'',
     ''__import__'', ''True'', ''False'', ''None'', ''NotImplemented'', ''Ellipsis'',
     ''__debug__'']"

definition load_global :: "string \<Rightarrow> pyerr + unit" where
  "load_global name =
     (if name \<in> set module_globals \<or> name \<in> set builtin_names then Inr ()
      else Inl (NameError name))"

text \<open>
  The calibration table as \<^verbatim>\<open>json.load\<close> would return it: mode, then energy key, then
  position name. What the function takes from outside: the directory of the module
  (\<^verbatim>\<open>data_path\<close> is its \<^verbatim>\<open>data\<close> directory), \<^verbatim>\<open>open\<close> for reading (the content, or
  \<open>None\<close> for an \<^verbatim>\<open>OSError\<close>), \<^verbatim>\<open>json.load\<close>, \<^verbatim>\<open>util.find_nearest\<close> (not among the
  sources) and the built-in \<^verbatim>\<open>float\<close>.
\<close>

type_synonym table = "(string \<times> (string \<times> (string \<times> pyval) list) list) list"

record pyenv =
  module_dir :: string
  open_file :: "string \<Rightarrow> string option"
  json_load :: "string \<Rightarrow> pyerr + table"
  find_nearest :: "real list \<Rightarrow> pyval \<Rightarrow> pyerr + pyval"
  py_float :: "pyval \<Rightarrow> pyerr + real"

definition data_path :: "pyenv \<Rightarrow> string" where
  "data_path env = path_join (module_dir env) ''data''"

text \<open>\<^verbatim>\<open>d[key]\<close> on a dictionary with string keys: a list is unhashable, any other key is missing.\<close>

definition dict_get :: "(string \<times> 'v) list \<Rightarrow> pyval \<Rightarrow> pyerr + 'v" where
  "dict_get d key =
     (case key of
        Atom (AStr k) \<Rightarrow> (case map_of d k of None \<Rightarrow> Inl (KeyError k) | Some v \<Rightarrow> Inr v)
      | Atom a \<Rightarrow> Inl (KeyError [])
      | PyList xs \<Rightarrow> Inl TypeError)"

text \<open>One assignment \<^verbatim>\<open>params.f = lookup[params.mode][energy_calibrated]["f"]\<close>.\<close>

definition assign_position :: "table \<Rightarrow> pyval \<Rightarrow> pystate \<Rightarrow> string \<Rightarrow> pyerr + pystate" where
  "assign_position lookup energy_calibrated st f =
     (case getattr (st_args st) ''mode'' of
        Inl e \<Rightarrow> Inl e
      | Inr mode \<Rightarrow>
         (case dict_get lookup mode of
            Inl e \<Rightarrow> Inl e
          | Inr energies \<Rightarrow>
             (case dict_get energies energy_calibrated of
                Inl e \<Rightarrow> Inl e
              | Inr positions \<Rightarrow>
                 (case dict_get positions (Atom (AStr f)) of
                    Inl e \<Rightarrow> Inl e
                  | Inr v \<Rightarrow> Inr (st\<lparr>st_args := setattr (st_args st) f v\<rparr>)))))"

fun assign_positions ::
  "table \<Rightarrow> pyval \<Rightarrow> string list \<Rightarrow> pystate \<Rightarrow> pystate \<times> pyerr option" where
  "assign_positions lookup energy_calibrated [] st = (st, None)"
| "assign_positions lookup energy_calibrated (f # fs) st =
     (case assign_position lookup energy_calibrated st f of
        Inl e \<Rightarrow> (st, Some e)
      | Inr st' \<Rightarrow> assign_positions lookup energy_calibrated fs st')"

fun floats_of :: "pyenv \<Rightarrow> string list \<Rightarrow> pyerr + real list" where
  "floats_of env [] = Inr []"
| "floats_of env (i # rest) =
     (case py_float env (Atom (AStr i)) of
        Inl e \<Rightarrow> Inl e
      | Inr x \<Rightarrow> (case floats_of env rest of Inl e \<Rightarrow> Inl e | Inr xs \<Rightarrow> Inr (x # xs)))"

text \<open>The assignments of lines 261 to 276, and the \<^verbatim>\<open>return 0\<close>.\<close>

definition set_positions :: "table \<Rightarrow> pyval \<Rightarrow> pystate \<Rightarrow> pystate \<times> (pyerr + pyval)" where
  "set_positions lookup energy_calibrated st =
     (case assign_positions lookup energy_calibrated
             [''mirror_angle'', ''mirror_vertical_position'', ''dmm_usy_ob'', ''dmm_usy_ib'',
              ''dmm_dsy''] st of
        (st1, Some e) \<Rightarrow> (st1, Inl e)
      | (st1, None) \<Rightarrow>
         (case getattr (st_args st1) ''mode'' of
            Inl e \<Rightarrow> (st1, Inl e)
          | Inr mode \<Rightarrow>
             (case (if mode = Atom (AStr ''Mono'')
                    then assign_positions lookup energy_calibrated
                           [''dmm_us_arm'', ''dmm_ds_arm'', ''dmm_m2y''] st1
                    else (st1, None)) of
                (st2, Some e) \<Rightarrow> (st2, Inl e)
              | (st2, None) \<Rightarrow>
                 (case assign_positions lookup energy_calibrated
                         [''dmm_usx'', ''dmm_dsx'', ''filter'', ''table_y'', ''flag''] st2 of
                    (st3, Some e) \<Rightarrow> (st3, Inl e)
                  | (st3, None) \<Rightarrow> (st3, Inr (Atom (AInt 0)))))))"

text \<open>The function from line 248 on, once \<^verbatim>\<open>lookup\<close> is bound.\<close>

definition calibrate :: "pyenv \<Rightarrow> table \<Rightarrow> pystate \<Rightarrow> pystate \<times> (pyerr + pyval)" where
  "calibrate env lookup st =
     (case getattr (st_args st) ''mode'' of
        Inl e \<Rightarrow> (st, Inl e)
      | Inr mode \<Rightarrow>
     (case dict_get lookup mode of
        Inl e \<Rightarrow> (st, Inl e)
      | Inr energies \<Rightarrow>
     (let energies_str = map fst energies in
      case floats_of env energies_str of
        Inl e \<Rightarrow> (st, Inl e)
      | Inr energies_flt \<Rightarrow>
     (case getattr (st_args st) ''energy_value'' of
        Inl e \<Rightarrow> (st, Inl e)
      | Inr energy_value \<Rightarrow>
     (case find_nearest env energies_flt energy_value of
        Inl e \<Rightarrow> (st, Inl e)
      | Inr energy_calibrated \<Rightarrow>
     (case py_float env energy_value of
        Inl e \<Rightarrow> (st, Inl e)
      | Inr x \<Rightarrow>
     (case py_float env energy_calibrated of
        Inl e \<Rightarrow> (st, Inl e)
      | Inr y \<Rightarrow>
     (let st1 = (if x \<noteq> y then
            log_info
              (log_info
                (log_info
                  (log_warning st
                    ''   *** Energy requested is %s keV, the closest calibrated energy is %s''
                    [energy_value, energy_calibrated])
                  ''   *** Options are %s keV'' [PyList (map AStr energies_str)])
                ''   *** Energy is set at %s keV'' [energy_value])
              ''   *** Move to %s keV instead of %s?'' [energy_calibrated, energy_value]
          else st);
          st2 = log_info st1 ''   *** Change Energy for %s as %s *** '' [mode, energy_calibrated];
          st3 = st2\<lparr>st_args := setattr (st_args st2) ''energy_value'' energy_calibrated\<rparr>
      in set_positions lookup energy_calibrated st3))))))))"

text \<open>
  \<^verbatim>\<open>set_default_config(params)\<close>: the state afterwards and what the call returns, \<^verbatim>\<open>0\<close>
  or the exception it raised. In \<^verbatim>\<open>json.load(json_file)\<close> the name \<^verbatim>\<open>json\<close> is looked
  up first, after the file was opened.
\<close>

definition set_default_config :: "pyenv \<Rightarrow> pystate \<Rightarrow> pystate \<times> (pyerr + pyval)" where
  "set_default_config env params =
     (let st = log_info params ''set default motor values'' [] in
      case open_file env (path_join (data_path env) ''dmm.json'') of
        None \<Rightarrow> (st, Inl (OSError (path_join (data_path env) ''dmm.json'')))
      | Some json_file \<Rightarrow>
         (case load_global ''json'' of
            Inl e \<Rightarrow> (st, Inl e)
          | Inr u \<Rightarrow>
             (case json_load env json_file of
                Inl e \<Rightarrow> (st, Inl e)
              | Inr lookup \<Rightarrow> calibrate env lookup st)))"

section \<open>Auxiliary definitions and example inputs\<close>

text \<open>The tokens one field, and one section, of the schema contribute to the result of
  \<^verbatim>\<open>config_to_list\<close>.\<close>


definition field_tokens :: "inifile \<Rightarrow> string \<Rightarrow> string \<times> opts \<Rightarrow> string list" where
  "field_tokens config section f =
     (if has_option config section (fst f) then
        (case cp_get config section (fst f) of Inl e \<Rightarrow> [] | Inr val \<Rightarrow> emit (fst f) (snd f) val [])
      else [])"

definition section_tokens :: "inifile \<Rightarrow> string \<times> (string \<times> opts) list \<Rightarrow> string list" where
  "section_tokens config s = concat (map (field_tokens config (fst s)) (snd s))"


text \<open>
  The action \<^verbatim>\<open>add_argument\<close> registers for a schema field, the \<^verbatim>\<open>-h/--help\<close> action of a
  fresh parser, the fields of all sections of the schema, and the \<^verbatim>\<open>(dest, default)\<close>
  pairs of the actions of a parser, in registration order.
\<close>

definition field_action :: "string \<Rightarrow> opts \<Rightarrow> action" where
  "field_action name opts =
     \<lparr>option_strings = [''--'' @ name], dest = Some (replace_char CHR ''-'' CHR ''_'' name),
      kind = (if opt_action opts = Some ''store_true'' then StoreTrue else Store (opt_type opts)),
      dflt = Some (opt_default opts)\<rparr>"

definition schema_fields :: "string \<Rightarrow> (string \<times> opts) list" where
  "schema_fields home = concat (map snd (SECTIONS home))"

definition defaults :: "parser \<Rightarrow> (string \<times> pyval) list" where
  "defaults p =
     concat (map (\<lambda>a. case (dest a, dflt a) of (Some d, Some v) \<Rightarrow> [(d, v)] | _ \<Rightarrow> []) p)"

definition help_action :: action where
  "help_action = \<lparr>option_strings = [''-h'', ''--help''], dest = None, kind = Help, dflt = None\<rparr>"

text \<open>Concrete inputs the examples below are evaluated on.\<close>

definition example_float :: "string \<Rightarrow> real option" where
  "example_float s = (if s = ''20.0'' then Some 20 else if s = ''30.5'' then Some 30.5 else None)"

definition no_files :: filesystem where
  "no_files name = Unreadable"

definition broken_files :: filesystem where
  "broken_files name = Malformed MissingSectionHeaderError"

definition mono_parser :: parser where
  "mono_parser =
     [\<lparr>option_strings = [''-h'', ''--help''], dest = None, kind = Help, dflt = None\<rparr>,
      \<lparr>option_strings = [''--energy''], dest = Some ''energy'',
         kind = Store (Some TFloat), dflt = Some (Atom (AInt (- 1)))\<rparr>,
      \<lparr>option_strings = [''--energyioc-prefix''], dest = Some ''energyioc_prefix'',
         kind = Store (Some TStr), dflt = Some (Atom (AStr ''2bm:MCTOptics:''))\<rparr>,
      \<lparr>option_strings = [''--config''], dest = Some ''config'',
         kind = Store (Some TStr), dflt = Some (Atom (AStr ''/home/user/logs/dmm.conf''))\<rparr>,
      \<lparr>option_strings = [''--force''], dest = Some ''force'',
         kind = StoreTrue, dflt = Some (Atom (ABool False))\<rparr>,
      \<lparr>option_strings = [''--logs-home''], dest = Some ''logs_home'',
         kind = Store (Some TStr), dflt = Some (Atom (AStr ''/home/user/logs''))\<rparr>,
      \<lparr>option_strings = [''--testing''], dest = Some ''testing'',
         kind = StoreTrue, dflt = Some (Atom (ABool False))\<rparr>,
      \<lparr>option_strings = [''--verbose''], dest = Some ''verbose'',
         kind = StoreTrue, dflt = Some (Atom (ABool False))\<rparr>]"

definition example_ini :: inifile where
  "example_ini =
     [(''general'',
         [(''logs-home'', Inr ''/data/logs''), (''verbose'', Inr ''True''),
          (''testing'', Inr ''False''), (''force'', Inr [])]),
      (''energy'', [(''energy'', Inr ''20.0'')]),
      (''energyioc'', [(''energyioc-prefix'', Inr ''None'')])]"

definition example_files :: filesystem where
  "example_files name = (if name = ''/home/user/logs/dmm.conf'' then Parsed example_ini else Unreadable)"

definition example_positions :: "(string \<times> pyval) list" where
  "example_positions =
     [(''mirror_angle'', Atom (AFloat 2.657)), (''mirror_vertical_position'', Atom (AFloat 0)),
      (''dmm_usy_ob'', Atom (AFloat 0.1)), (''dmm_usy_ib'', Atom (AFloat 0.1)),
      (''dmm_dsy'', Atom (AFloat 0.2)), (''dmm_us_arm'', Atom (AFloat 1.1)),
      (''dmm_ds_arm'', Atom (AFloat 1.2)), (''dmm_m2y'', Atom (AFloat 13.8)),
      (''dmm_usx'', Atom (AFloat 27.5)), (''dmm_dsx'', Atom (AFloat 27.5)),
      (''filter'', Atom (AInt 4)), (''table_y'', Atom (AFloat 0)), (''flag'', Atom (AFloat 19.4))]"

definition example_table :: table where
  "example_table = [(''Mono'', [(''20.0'', example_positions)]), (''Pink'', [(''0.0'', example_positions)])]"

definition installed_env :: pyenv where
  "installed_env =
     \<lparr>module_dir = ''/opt/dmm2bm'',
      open_file = (\<lambda>path. if path = ''/opt/dmm2bm/data/dmm.json'' then Some ''{}'' else None),
      json_load = (\<lambda>text. Inr example_table),
      find_nearest = (\<lambda>energies requested. Inr (Atom (AStr ''20.0''))),
      py_float = (\<lambda>v. Inr 20)\<rparr>"

definition mono_params :: pystate where
  "mono_params =
     \<lparr>st_args = [(''mode'', Atom (AStr ''Mono'')), (''energy_value'', Atom (AFloat 20))],
      st_log = []\<rparr>"


text \<open>
  The key \<^verbatim>\<open>write\<close> sets for a field, names that \<^verbatim>\<open>optionxform\<close> leaves alone and that do
  not look commented, and the options a section ends with after the loop over its fields.
\<close>


definition field_key :: "atom \<Rightarrow> string \<Rightarrow> string" where
  "field_key a name = (if a = AStr [] then ''# '' else []) @ name"

definition clean_name :: "string \<Rightarrow> bool" where
  "clean_name n = (optionxform n = n \<and> \<not> startswith n ''# '')"

fun fields_map ::
  "(real \<Rightarrow> string) \<Rightarrow> namespace option \<Rightarrow> string list option \<Rightarrow> string
     \<Rightarrow> (string \<times> opts) list \<Rightarrow> (string \<rightharpoonup> string) \<Rightarrow> (string \<rightharpoonup> string)" where
  "fields_map sf args secs section [] m = m"
| "fields_map sf args secs section ((name, opts) # rest) m =
     (case field_value args secs section name opts of
        Inl e \<Rightarrow> m
      | Inr a \<Rightarrow>
          if name \<noteq> ''config''
          then fields_map sf args secs section rest (m(optionxform (field_key a name) \<mapsto> py_str sf a))
          else fields_map sf args secs section rest m)"



definition example_str_float :: "real \<Rightarrow> string" where
  "example_str_float r = ''20.0''"

definition example_args :: namespace where
  "example_args =
     [(''energy'', Atom (AFloat 20)), (''energyioc_prefix'', Atom (AStr [])),
      (''config'', Atom (AStr ''/home/user/logs/dmm.conf'')),
      (''force'', Atom (ABool False)), (''logs_home'', Atom (AStr ''/data/logs'')),
      (''testing'', Atom (ABool False)), (''verbose'', Atom (ABool True))]"

definition every_path :: "string \<Rightarrow> bool" where
  "every_path path = True"


definition example_config :: cpstate where
  "example_config =
     [(''general'',
         [(''logs-home'', ''/home/user/logs''), (''verbose'', ''False''),
          (''testing'', ''False''), (''force'', ''False'')]),
      (''energy'', [(''energy'', ''20.0'')]),
      (''energyioc'', [(''# energyioc-prefix'', [])])]"

section \<open>The config loader: what one field emits\<close>

lemma emit_append: "emit name opts val result = result @ emit name opts val []"
  by (simp add: emit_def Let_def)

lemma fields_loop_tokens:
  "fields_loop config section items result = Inr r \<Longrightarrow>
     r = result @ concat (map (field_tokens config section) items)"
proof (induction items arbitrary: result)
  case Nil
  then show ?case by simp
next
  case (Cons f items)
  obtain name opts where f: "f = (name, opts)" by (cases f)
  show ?case
  proof (cases "has_option config section name")
    case False
    with Cons f show ?thesis by (simp add: field_tokens_def)
  next
    case True
    show ?thesis
    proof (cases "cp_get config section name")
      case (Inl e)
      with Cons.prems f True show ?thesis by simp
    next
      case (Inr val)
      with Cons.prems f True
      have "fields_loop config section items (emit name opts val result) = Inr r" by simp
      from Cons.IH [OF this]
      have "r = emit name opts val result @ concat (map (field_tokens config section) items)" .
      moreover have "field_tokens config section f = emit name opts val []"
        using f True Inr by (simp add: field_tokens_def)
      ultimately show ?thesis using emit_append [of name opts val result] by simp
    qed
  qed
qed

lemma sections_loop_tokens:
  "sections_loop config schema result = Inr r \<Longrightarrow>
     r = result @ concat (map (section_tokens config) schema)"
proof (induction schema arbitrary: result)
  case Nil
  then show ?case by simp
next
  case (Cons s schema)
  obtain sec items where s: "s = (sec, items)" by (cases s)
  show ?case
  proof (cases "fields_loop config sec items result")
    case (Inl e)
    with Cons.prems s show ?thesis by simp
  next
    case (Inr r1)
    with Cons.prems s have "sections_loop config schema r1 = Inr r" by simp
    from Cons.IH [OF this] fields_loop_tokens [OF Inr] s show ?thesis
      by (simp add: section_tokens_def)
  qed
qed

lemma config_to_list_tokens:
  assumes "config_to_list home fs config_name = Inr toks" and "fs config_name = Parsed config"
  shows "toks = concat (map (section_tokens config) (SECTIONS home))"
  using assms sections_loop_tokens [of config "SECTIONS home" "[]" toks]
  by (simp add: config_to_list_def cp_read_def)




lemma emit_flag:
  "opt_action opts = Some ''store_true'' \<Longrightarrow>
     emit name opts val result = (if val = ''True'' then result @ [''--'' @ name] else result)"
  by (simp add: emit_def Let_def)

lemma emit_value:
  "opt_action opts = None \<Longrightarrow> opt_nargs opts = None \<Longrightarrow>
     emit name opts val result =
       (if val \<noteq> [] \<and> val \<noteq> ''None'' then result @ [''--'' @ name @ ''='' @ val] else result)"
  by (simp add: emit_def Let_def)

lemma field_tokens_flag:
  "opt_action opts = Some ''store_true'' \<Longrightarrow>
     field_tokens config section (name, opts) =
       (if has_option config section name \<and> cp_get config section name = Inr ''True''
        then [''--'' @ name] else [])"
  by (cases "cp_get config section name") (simp_all add: field_tokens_def emit_flag)

lemma field_tokens_value:
  "opt_action opts = None \<Longrightarrow> opt_nargs opts = None \<Longrightarrow>
     field_tokens config section (name, opts) =
       (if has_option config section name then
          (case cp_get config section name of
             Inl e \<Rightarrow> []
           | Inr val \<Rightarrow> if val \<noteq> [] \<and> val \<noteq> ''None'' then [''--'' @ name @ ''='' @ val] else [])
        else [])"
  by (cases "cp_get config section name") (simp_all add: field_tokens_def emit_value)




lemma SECTIONS_tokens:
  "concat (map (section_tokens config) (SECTIONS home)) =
     field_tokens config ''general'' (''config'', str_opt (CONFIG_FILE_NAME home)) @
     field_tokens config ''general'' (''logs-home'', str_opt (LOGS_HOME home)) @
     field_tokens config ''general'' (''verbose'', flag_opt) @
     field_tokens config ''general'' (''testing'', flag_opt) @
     field_tokens config ''general'' (''force'', flag_opt) @
     field_tokens config ''energy'' (''energy'', \<lparr>opt_default = Atom (AInt (- 1)), opt_type = Some TFloat,
            opt_action = None, opt_nargs = None\<rparr>) @
     field_tokens config ''energyioc'' (''energyioc-prefix'', str_opt ''2bm:MCTOptics:'')"
  by (simp add: SECTIONS_def section_tokens_def)

lemma value_token_count:
  assumes "opt_action opts = None" and "opt_nargs opts = None" and "CHR ''='' \<notin> set t"
  shows "count_list (field_tokens config section (name, opts)) t = 0"
proof -
  have ne: "''--'' @ name @ ''='' @ val \<noteq> t" for val
  proof
    assume "''--'' @ name @ ''='' @ val = t"
    then have "CHR ''='' \<in> set t" by auto
    with assms(3) show False by simp
  qed
  show ?thesis
  proof (cases "cp_get config section name")
    case (Inl e)
    have "field_tokens config section (name, opts) = []"
      apply (subst field_tokens_value [OF assms(1,2)])
      apply (simp add: Inl)
      done
    then show ?thesis by simp
  next
    case (Inr val)
    have "field_tokens config section (name, opts) = [] \<or>
          field_tokens config section (name, opts) = [''--'' @ name @ ''='' @ val]"
      apply (subst (1 2) field_tokens_value [OF assms(1,2)])
      apply (simp add: Inr)
      done
    then show ?thesis using ne [of val] by auto
  qed
qed




lemma flag_opt_action: "opt_action flag_opt = Some ''store_true''"
  by (simp add: flag_opt_def)

lemma str_opt_action: "opt_action (str_opt d) = None" "opt_nargs (str_opt d) = None"
  by (simp_all add: str_opt_def)

lemma flag_fields:
  assumes "(section, items) \<in> set (SECTIONS home)" and "(name, opts) \<in> set items"
    and "opt_action opts = Some ''store_true''"
  shows "section = ''general'' \<and> opts = flag_opt \<and> (name = ''verbose'' \<or> name = ''testing'' \<or> name = ''force'')"
proof -
  from assms(1) consider
      (g) "section = ''general''" "items = [(''config'', str_opt (CONFIG_FILE_NAME home)),
         (''logs-home'', str_opt (LOGS_HOME home)), (''verbose'', flag_opt), (''testing'', flag_opt),
         (''force'', flag_opt)]"
    | (e) "items = [(''energy'', \<lparr>opt_default = Atom (AInt (- 1)), opt_type = Some TFloat,
            opt_action = None, opt_nargs = None\<rparr>)]"
    | (i) "items = [(''energyioc-prefix'', str_opt ''2bm:MCTOptics:'')]"
    unfolding SECTIONS_def by auto
  then show ?thesis
  proof cases
    case g
    from assms(2) have "opts = str_opt (CONFIG_FILE_NAME home) \<or> opts = str_opt (LOGS_HOME home)
        \<or> (opts = flag_opt \<and> (name = ''verbose'' \<or> name = ''testing'' \<or> name = ''force''))"
      unfolding g(2) by auto
    with assms(3) g(1) show ?thesis by (auto simp: str_opt_action)
  next
    case e
    with assms(2,3) show ?thesis by simp
  next
    case i
    with assms(2,3) show ?thesis by (simp add: str_opt_action)
  qed
qed



lemma value_opt_action:
  "opt_action \<lparr>opt_default = d, opt_type = ty, opt_action = None, opt_nargs = None\<rparr> = None"
  "opt_nargs \<lparr>opt_default = d, opt_type = ty, opt_action = None, opt_nargs = None\<rparr> = None"
  by simp_all

lemma config_to_list_SECTIONS:
  assumes "config_to_list home fs config_name = Inr toks" and "fs config_name = Parsed config"
  shows "toks =
     field_tokens config ''general'' (''config'', str_opt (CONFIG_FILE_NAME home)) @
     field_tokens config ''general'' (''logs-home'', str_opt (LOGS_HOME home)) @
     field_tokens config ''general'' (''verbose'', flag_opt) @
     field_tokens config ''general'' (''testing'', flag_opt) @
     field_tokens config ''general'' (''force'', flag_opt) @
     field_tokens config ''energy'' (''energy'', \<lparr>opt_default = Atom (AInt (- 1)), opt_type = Some TFloat,
            opt_action = None, opt_nargs = None\<rparr>) @
     field_tokens config ''energyioc'' (''energyioc-prefix'', str_opt ''2bm:MCTOptics:'')"
  using config_to_list_tokens [OF assms] SECTIONS_tokens by simp

lemma flag_token_count:
  assumes "config_to_list home fs config_name = Inr toks"
    and "fs config_name = Parsed config"
    and "name = ''verbose'' \<or> name = ''testing'' \<or> name = ''force''"
  shows "count_list toks (''--'' @ name) =
      (if has_option config ''general'' name \<and> cp_get config ''general'' name = Inr ''True''
       then 1 else 0)"
proof -
  note toks = config_to_list_SECTIONS [OF assms(1,2)]
  have eq: "CHR ''='' \<notin> set (''--'' @ name)" using assms(3) by auto
  note c = value_token_count [OF str_opt_action eq] value_token_count [OF value_opt_action eq]
  note f = field_tokens_flag [OF flag_opt_action]
  have "count_list toks (''--'' @ name) =
      count_list (field_tokens config ''general'' (''verbose'', flag_opt)) (''--'' @ name) +
      count_list (field_tokens config ''general'' (''testing'', flag_opt)) (''--'' @ name) +
      count_list (field_tokens config ''general'' (''force'', flag_opt)) (''--'' @ name)"
    unfolding toks count_list_append c by simp
  also have "\<dots> = (if has_option config ''general'' name \<and> cp_get config ''general'' name = Inr ''True''
       then 1 else 0)"
    using assms(3) unfolding f by auto
  finally show ?thesis .
qed

lemma field_tokens_value_cases:
  assumes "opt_action opts = None" and "opt_nargs opts = None"
  shows "field_tokens config section (name, opts) = [] \<or>
     (\<exists>val. cp_get config section name = Inr val \<and> val \<noteq> [] \<and> val \<noteq> ''None'' \<and>
        has_option config section name \<and>
        field_tokens config section (name, opts) = [''--'' @ name @ ''='' @ val])"
proof (cases "cp_get config section name")
  case (Inl e)
  have "field_tokens config section (name, opts) = []"
    apply (subst field_tokens_value [OF assms])
    apply (simp add: Inl)
    done
  then show ?thesis by simp
next
  case (Inr val)
  show ?thesis
    apply (subst (1 2) field_tokens_value [OF assms])
    apply (simp add: Inr)
    done
qed

lemma field_tokens_flag_cases:
  assumes "opt_action opts = Some ''store_true''"
  shows "field_tokens config section (name, opts) = [] \<or>
     (cp_get config section name = Inr ''True'' \<and> has_option config section name \<and>
        field_tokens config section (name, opts) = [''--'' @ name])"
  apply (subst (1 2) field_tokens_flag [OF assms])
  apply simp
  done

lemma flag_token_member:
  assumes "opt_action opts = Some ''store_true''" and "t \<in> set (field_tokens config section (name, opts))"
  shows "t = ''--'' @ name"
  using field_tokens_flag_cases [OF assms(1), of config "section" name] assms(2) by auto

lemma value_token_member:
  assumes "opt_action opts = None" and "opt_nargs opts = None"
    and "t \<in> set (field_tokens config section (name, opts))"
  shows "startswith t (''--'' @ name @ ''='')"
  using field_tokens_value_cases [OF assms(1,2), of config "section" name] assms(3)
  by (auto simp: startswith_def)

lemma startswith_nth: "startswith t p \<Longrightarrow> i < length p \<Longrightarrow> t ! i = p ! i"
  unfolding startswith_def by (metis nth_take)

lemma startswith_length: "startswith t p \<Longrightarrow> length p \<le> length t"
  unfolding startswith_def by (metis length_take min.cobounded1)

lemma flag_token_no_value:
  assumes "config_to_list home fs config_name = Inr toks"
    and "fs config_name = Parsed config"
    and "name = ''verbose'' \<or> name = ''testing'' \<or> name = ''force''"
    and "t \<in> set toks"
  shows "\<not> startswith t (''--'' @ name @ ''='')"
proof
  assume st: "startswith t (''--'' @ name @ ''='')"
  from startswith_nth [OF st, of 2] assms(3)
  have c: "t ! 2 = CHR ''v'' \<or> t ! 2 = CHR ''t'' \<or> t ! 2 = CHR ''f''" by auto
  note f = flag_token_member [OF flag_opt_action]
  note v = value_token_member [OF str_opt_action] value_token_member [OF value_opt_action]
  from assms(4) have "t = ''--verbose'' \<or> t = ''--testing'' \<or> t = ''--force''
      \<or> startswith t ''--config='' \<or> startswith t ''--logs-home=''
      \<or> startswith t ''--energy='' \<or> startswith t ''--energyioc-prefix=''"
    unfolding config_to_list_SECTIONS [OF assms(1,2)] set_append Un_iff
    using f v by fastforce
  then consider (flag) "t = ''--verbose'' \<or> t = ''--testing'' \<or> t = ''--force''"
    | (val) p where "startswith t p" "p ! 2 \<in> {CHR ''c'', CHR ''l'', CHR ''e''}" "2 < length p"
    by fastforce
  then show False
  proof cases
    case flag
    with st assms(3) show False by (auto simp: startswith_def)
  next
    case val
    from startswith_nth [OF val(1,3)] val(2) c show False by auto
  qed
qed

text \<open>
  C6. For a schema field whose action is \<^verbatim>\<open>store_true\<close>, the loop body of
  \<^verbatim>\<open>config_to_list\<close> appends exactly the bare token \<^verbatim>\<open>--name\<close> when the stored value is
  the string \<^verbatim>\<open>True\<close> and appends nothing for any other stored value. In the list
  \<^verbatim>\<open>config_to_list\<close> returns for a file that holds the field, \<^verbatim>\<open>--name\<close> therefore occurs
  once when the stored value is \<^verbatim>\<open>True\<close> and not at all otherwise, and no token pairs the
  flag with a value (\<^verbatim>\<open>--name=...\<close>).
\<close>

theorem config_to_list_flag_field:
  assumes "(section, items) \<in> set (SECTIONS home)" and "(name, opts) \<in> set items"
    and "opt_action opts = Some ''store_true''"
    and "fs config_name = Parsed config"
    and "has_option config section name" and "cp_get config section name = Inr val"
    and "config_to_list home fs config_name = Inr toks"
  shows "emit name opts val result = (if val = ''True'' then result @ [''--'' @ name] else result)
    \<and> count_list toks (''--'' @ name) = (if val = ''True'' then 1 else 0)
    \<and> list_all (\<lambda>t. \<not> startswith t (''--'' @ name @ ''='')) toks"
proof -
  from flag_fields [OF assms(1,2,3)]
  have s: "section = ''general''" and n: "name = ''verbose'' \<or> name = ''testing'' \<or> name = ''force''"
    by auto
  have "emit name opts val result = (if val = ''True'' then result @ [''--'' @ name] else result)"
    using assms(3) by (rule emit_flag)
  moreover have "count_list toks (''--'' @ name) = (if val = ''True'' then 1 else 0)"
    using flag_token_count [OF assms(7,4) n] assms(5,6) s by simp
  moreover have "list_all (\<lambda>t. \<not> startswith t (''--'' @ name @ ''='')) toks"
    using flag_token_no_value [OF assms(7,4) n] by (simp add: list_all_iff)
  ultimately show ?thesis by simp
qed

lemma example_config_to_list:
  "config_to_list ''/home/user'' example_files ''/home/user/logs/dmm.conf'' =
     Inr [''--logs-home=/data/logs'', ''--verbose'', ''--energy=20.0'']"
  by code_simp

theorem config_to_list_flag_field_witness:
  "config_to_list ''/home/user'' example_files ''/home/user/logs/dmm.conf'' =
     Inr [''--logs-home=/data/logs'', ''--verbose'', ''--energy=20.0'']
   \<and> cp_get example_ini ''general'' ''verbose'' = Inr ''True''
   \<and> emit ''verbose'' flag_opt ''True'' [] = [''--verbose'']
   \<and> count_list [''--logs-home=/data/logs'', ''--verbose'', ''--energy=20.0''] ''--verbose'' = 1
   \<and> list_all (\<lambda>t. \<not> startswith t ''--verbose='')
        [''--logs-home=/data/logs'', ''--verbose'', ''--energy=20.0'']"
proof -
  have h1: "(''general'', [(''config'', str_opt (CONFIG_FILE_NAME ''/home/user'')),
         (''logs-home'', str_opt (LOGS_HOME ''/home/user'')), (''verbose'', flag_opt),
         (''testing'', flag_opt), (''force'', flag_opt)]) \<in> set (SECTIONS ''/home/user'')"
    by (simp add: SECTIONS_def)
  have h2: "(''verbose'', flag_opt) \<in> set [(''config'', str_opt (CONFIG_FILE_NAME ''/home/user'')),
         (''logs-home'', str_opt (LOGS_HOME ''/home/user'')), (''verbose'', flag_opt),
         (''testing'', flag_opt), (''force'', flag_opt)]"
    by simp
  have h4: "example_files ''/home/user/logs/dmm.conf'' = Parsed example_ini"
    by (simp add: example_files_def)
  have h5: "has_option example_ini ''general'' ''verbose''" by code_simp
  have h6: "cp_get example_ini ''general'' ''verbose'' = Inr ''True''" by code_simp
  from config_to_list_flag_field [OF h1 h2 flag_opt_action h4 h5 h6 example_config_to_list, of "[]"]
  show ?thesis using example_config_to_list h6 by simp
qed

section \<open>The config loader: a file that cannot be read\<close>

text \<open>
  C3, as amended. When the config file does not exist or cannot be opened,
  \<^verbatim>\<open>config_to_list\<close> returns the empty token list and raises nothing. When the file
  opens and is not well-formed INI, the error \<^verbatim>\<open>ConfigParser.read\<close> raises is not caught:
  \<^verbatim>\<open>config_to_list\<close> raises it.
\<close>

theorem config_to_list_unreadable:
  "(fs config_name = Unreadable \<longrightarrow> config_to_list home fs config_name = Inr [])
   \<and> (fs config_name = Malformed e \<longrightarrow> config_to_list home fs config_name = Inl (ConfigError e))"
  by (simp add: config_to_list_def cp_read_def)

theorem config_to_list_unreadable_witness:
  "no_files ''/home/user/logs/dmm.conf'' = Unreadable
   \<and> config_to_list ''/home/user'' no_files ''/home/user/logs/dmm.conf'' = Inr []
   \<and> broken_files ''/home/user/logs/dmm.conf'' = Malformed MissingSectionHeaderError
   \<and> config_to_list ''/home/user'' broken_files ''/home/user/logs/dmm.conf'' =
       Inl (ConfigError MissingSectionHeaderError)"
  using config_to_list_unreadable [of no_files "''/home/user/logs/dmm.conf''" "''/home/user''"]
    config_to_list_unreadable [of broken_files "''/home/user/logs/dmm.conf''"
      "''/home/user''" MissingSectionHeaderError]
  by (simp add: no_files_def broken_files_def)

text \<open>
  The claim as stated fails on a file that opens and does not parse: a file whose first line
  stands before any section header makes \<^verbatim>\<open>read\<close>, and so \<^verbatim>\<open>config_to_list\<close>, raise
  \<^verbatim>\<open>MissingSectionHeaderError\<close>.
\<close>

theorem config_to_list_malformed_counterexample:
  "config_to_list ''/home/user'' broken_files ''/home/user/logs/dmm.conf'' \<noteq> Inr []"
  by (simp add: config_to_list_def cp_read_def broken_files_def)

section \<open>The calibration lookup as written\<close>

lemma load_global_json: "load_global ''json'' = Inl (NameError ''json'')"
  by (simp add: load_global_def module_globals_def builtin_names_def)

text \<open>
  C5, as amended. No call of \<^verbatim>\<open>set_default_config\<close> returns normally, and none assigns
  a field of the parameter set: when \<^verbatim>\<open>data/dmm.json\<close> can be opened the call raises
  \<^verbatim>\<open>NameError\<close> for the name \<^verbatim>\<open>json\<close>, which the module never imports, before any
  calibration data is read (the outcome does not depend on \<^verbatim>\<open>json.load\<close>); when the file
  cannot be opened the call raises the \<^verbatim>\<open>OSError\<close> of \<^verbatim>\<open>open\<close>.
\<close>

theorem set_default_config_never_returns:
  "(\<exists>e. snd (set_default_config env params) = Inl e)
   \<and> st_args (fst (set_default_config env params)) = st_args params
   \<and> set_default_config (env\<lparr>json_load := load\<rparr>) params = set_default_config env params
   \<and> (open_file env (path_join (data_path env) ''dmm.json'') \<noteq> None \<longrightarrow>
        snd (set_default_config env params) = Inl (NameError ''json''))
   \<and> (open_file env (path_join (data_path env) ''dmm.json'') = None \<longrightarrow>
        snd (set_default_config env params) = Inl (OSError (path_join (data_path env) ''dmm.json'')))"
  by (cases "open_file env (path_join (data_path env) ''dmm.json'')")
     (simp_all add: set_default_config_def load_global_json log_info_def data_path_def Let_def)

lemma installed_env_opens:
  "open_file installed_env (path_join (data_path installed_env) ''dmm.json'') = Some ''{}''"
  by (simp add: installed_env_def data_path_def path_join_def startswith_def)

theorem set_default_config_never_returns_witness:
  "open_file installed_env (path_join (data_path installed_env) ''dmm.json'') \<noteq> None
   \<and> snd (set_default_config installed_env mono_params) = Inl (NameError ''json'')
   \<and> st_args (fst (set_default_config installed_env mono_params)) = st_args mono_params"
  using set_default_config_never_returns [of installed_env mono_params] installed_env_opens
  by simp

text \<open>
  The claim as stated fails where the calibration file is missing: then \<^verbatim>\<open>open\<close> raises
  first, and the exception is an \<^verbatim>\<open>OSError\<close>, not a \<^verbatim>\<open>NameError\<close>.
\<close>

theorem set_default_config_missing_file_counterexample:
  "snd (set_default_config (installed_env\<lparr>open_file := Map.empty\<rparr>) mono_params) \<noteq>
     Inl (NameError ''json'')"
  by (simp add: set_default_config_def Let_def)

text \<open>
  C1 at a concrete input. Mode \<^verbatim>\<open>Mono\<close>, requested energy 20, a calibration file that
  opens and a table that holds the key: the call raises \<^verbatim>\<open>NameError\<close> and the parameter
  set has none of the position fields afterwards.
\<close>

theorem set_default_config_assigns_nothing:
  "snd (set_default_config installed_env mono_params) = Inl (NameError ''json'')
   \<and> st_args (fst (set_default_config installed_env mono_params)) =
       [(''mode'', Atom (AStr ''Mono'')), (''energy_value'', Atom (AFloat 20))]
   \<and> \<not> hasattr (st_args (fst (set_default_config installed_env mono_params))) ''mirror_angle''"
  by (simp add: set_default_config_def load_global_json installed_env_opens Let_def
        log_info_def mono_params_def hasattr_def)

section \<open>The status reporter changes nothing\<close>


lemma log_entry_frame:
  assumes "map_of (st_args st) entry \<noteq> None"
  shows "\<exists>st'. log_entry st entry = Inr st' \<and> st_args st' = st_args st"
  using assms by (auto simp: log_entry_def Let_def log_info_def log_warning_def)

lemma log_entries_frame:
  assumes "\<forall>entry \<in> set entries. map_of (st_args st) entry \<noteq> None"
  shows "snd (log_entries entries st) = None \<and> st_args (fst (log_entries entries st)) = st_args st"
  using assms
proof (induction entries arbitrary: st)
  case Nil
  then show ?case by simp
next
  case (Cons entry entries)
  then have "map_of (st_args st) entry \<noteq> None" by simp
  from log_entry_frame [OF this] obtain st' where
    e: "log_entry st entry = Inr st'" and a: "st_args st' = st_args st" by blast
  from Cons.prems a have "\<forall>x \<in> set entries. map_of (st_args st') x \<noteq> None" by simp
  from Cons.IH [OF this] e a show ?case by simp
qed

lemma section_entries_keys:
  "\<forall>entry \<in> set (sort (filter P (map fst ns))). map_of ns entry \<noteq> None"
  by (auto simp: map_of_eq_None_iff)

lemma log_sections_frame:
  assumes "\<forall>p \<in> set pairs. map_of schema (fst p) \<noteq> None"
  shows "snd (log_sections schema pairs st) = None
     \<and> st_args (fst (log_sections schema pairs st)) = st_args st"
  using assms
proof (induction pairs arbitrary: st)
  case Nil
  then show ?case by simp
next
  case (Cons p pairs)
  obtain sec name where p: "p = (sec, name)" by (cases p)
  with Cons.prems obtain items where items: "map_of schema sec = Some items" by auto
  define entries where
    "entries = sort (filter (\<lambda>k. map_of items (replace_char CHR ''_'' CHR ''-'' k) \<noteq> None)
                                (map fst (st_args st)))"
  from Cons.prems have rest: "\<forall>q \<in> set pairs. map_of schema (fst q) \<noteq> None" by simp
  have step: "log_sections schema (p # pairs) st =
      (if entries \<noteq> [] then
         (case log_entries entries (log_info st name []) of
            (st', Some e) \<Rightarrow> (st', Some e)
          | (st', None) \<Rightarrow> log_sections schema pairs st')
       else log_sections schema pairs st)"
    unfolding entries_def p by (simp add: items Let_def)
  show ?case
  proof (cases "entries = []")
    case True
    with Cons.IH [OF rest, of st] show ?thesis
      by (simp add: step)
  next
    case False
    have "\<forall>entry \<in> set entries. map_of (st_args (log_info st name [])) entry \<noteq> None"
      unfolding entries_def using section_entries_keys by (simp add: log_info_def)
    from log_entries_frame [OF this]
    have n: "snd (log_entries entries (log_info st name [])) = None"
      and a: "st_args (fst (log_entries entries (log_info st name []))) = st_args st"
      by (simp_all add: log_info_def)
    obtain st' where st': "log_entries entries (log_info st name []) = (st', None)"
      using n by (cases "log_entries entries (log_info st name [])") auto
    with a have "st_args st' = st_args st" by simp
    with Cons.IH [OF rest, of st'] st' False show ?thesis
      by (simp add: step)
  qed
qed


text \<open>
  C10. \<^verbatim>\<open>log_values\<close> leaves the attribute dictionary of the parameter set as it was,
  whatever it holds, raises nothing and returns \<^verbatim>\<open>None\<close>; only the log grows.
\<close>

theorem log_values_frame:
  "st_args (fst (log_values home st)) = st_args st \<and> snd (log_values home st) = Inr (Atom ANone)"
proof -
  have k: "\<forall>p \<in> set (zip (map fst (SECTIONS home)) NICE_NAMES). map_of (SECTIONS home) (fst p) \<noteq> None"
    by (simp add: SECTIONS_def NICE_NAMES_def)
  from log_sections_frame [OF k, of "log_warning st ''energy status start'' []"]
  obtain st' where "log_sections (SECTIONS home) (zip (map fst (SECTIONS home)) NICE_NAMES)
             (log_warning st ''energy status start'' []) = (st', None)" and "st_args st' = st_args st"
    by (cases "log_sections (SECTIONS home) (zip (map fst (SECTIONS home)) NICE_NAMES)
             (log_warning st ''energy status start'' [])") (auto simp: log_warning_def)
  then show ?thesis by (simp add: log_values_def log_warning_def)
qed

section \<open>The config writer\<close>
lemma map_of_dict_set: "map_of (dict_set d k v) = (map_of d)(k \<mapsto> v)"
  by (induction d k v rule: dict_set.induct) (auto simp: fun_eq_iff)

lemma keys_dict_set: "fst ` set (dict_set d k v) = insert k (fst ` set d)"
  by (induction d k v rule: dict_set.induct) auto

lemma set_dict_set: "set (dict_set d k v) \<subseteq> insert (k, v) (set d)"
  by (induction d k v rule: dict_set.induct) auto

lemma map_fst_dict_set:
  "map_of d k \<noteq> None \<Longrightarrow> map fst (dict_set d k v) = map fst d"
  by (induction d k v rule: dict_set.induct) (auto split: if_splits)

lemma optionxform_append: "optionxform (a @ b) = optionxform a @ optionxform b"
  by (simp add: optionxform_def)

lemma optionxform_marker: "optionxform ''# '' = ''# ''"
  by code_simp

lemma optionxform_field_key:
  "clean_name n \<Longrightarrow> optionxform (field_key a n) = field_key a n"
  by (simp add: field_key_def clean_name_def optionxform_append optionxform_marker)
     (simp add: optionxform_def)

lemma field_key_inj:
  assumes "clean_name n" and "clean_name n'" and "field_key a n = field_key a' n'"
  shows "n = n'"
  using assms by (auto simp: field_key_def clean_name_def startswith_def split: if_splits)

lemma field_key_not_config:
  assumes "clean_name n" and "n \<noteq> ''config''"
  shows "field_key a n \<noteq> ''config''"
  using assms by (auto simp: field_key_def split: if_splits)


lemma cp_set_Inr:
  assumes "cp_set config section opt val = Inr config'"
  shows "\<exists>its. map_of config section = Some its \<and>
           config' = dict_set config section (dict_set its (optionxform opt) val)"
  using assms by (auto simp: cp_set_def split: if_splits option.splits)

lemma cp_set_effect:
  assumes "cp_set config section opt val = Inr config'" and "map_of config section = Some its"
  shows "map_of config' = (map_of config)(section \<mapsto> dict_set its (optionxform opt) val)"
    and "map fst config' = map fst config"
  using cp_set_Inr [OF assms(1)] assms(2) by (auto simp: map_of_dict_set map_fst_dict_set)

lemma write_fields_map:
  assumes "write_fields sf args secs section items config = Inr config'"
    and "map_of config section = Some its"
  shows "\<exists>its'. map_of config' section = Some its'
           \<and> map_of its' = fields_map sf args secs section items (map_of its)
           \<and> (\<forall>s. s \<noteq> section \<longrightarrow> map_of config' s = map_of config s)
           \<and> map fst config' = map fst config"
  using assms
proof (induction items arbitrary: config its)
  case Nil
  then show ?case by simp
next
  case (Cons f items)
  obtain name opts where f: "f = (name, opts)" by (cases f)
  from Cons.prems(1) f obtain a where a: "field_value args secs section name opts = Inr a"
    by (cases "field_value args secs section name opts") auto
  show ?case
  proof (cases "name = ''config''")
    case True
    with Cons.prems f a have "write_fields sf args secs section items config = Inr config'"
      by (simp add: Let_def)
    from Cons.IH [OF this Cons.prems(2)] f a True show ?thesis by simp
  next
    case False
    define key where "key = (if a = AStr [] then ''# '' else []) @ name"
    from Cons.prems(1) f a False obtain config1 where
      c1: "cp_set config section key (py_str sf a) = Inr config1"
      and r: "write_fields sf args secs section items config1 = Inr config'"
      by (cases "cp_set config section key (py_str sf a)") (auto simp: Let_def key_def)
    note e = cp_set_effect [OF c1 Cons.prems(2)]
    from e(1) have s1: "map_of config1 section = Some (dict_set its (optionxform key) (py_str sf a))"
      by simp
    from Cons.IH [OF r s1] obtain its' where
      i: "map_of config' section = Some its'"
      "map_of its' = fields_map sf args secs section items
          (map_of (dict_set its (optionxform key) (py_str sf a)))"
      "\<forall>s. s \<noteq> section \<longrightarrow> map_of config' s = map_of config1 s"
      "map fst config' = map fst config1"
      by blast
    have k: "key = field_key a name" by (simp add: key_def field_key_def)
    from i e f a False show ?thesis
      by (simp add: map_of_dict_set k)
  qed
qed

lemma write_fields_values:
  assumes "write_fields sf args secs section items config = Inr config'"
    and "(name, opts) \<in> set items"
  shows "\<exists>a. field_value args secs section name opts = Inr a"
  using assms
proof (induction items arbitrary: config)
  case Nil
  then show ?case by simp
next
  case (Cons f items)
  obtain n o' where f: "f = (n, o')" by (cases f)
  from Cons.prems(1) f obtain a where a: "field_value args secs section n o' = Inr a"
    by (cases "field_value args secs section n o'") auto
  show ?case
  proof (cases "(name, opts) = f")
    case True
    with f a show ?thesis by simp
  next
    case False
    with Cons.prems(2) have m: "(name, opts) \<in> set items" by simp
    from Cons.prems(1) f a obtain config1 where
      "write_fields sf args secs section items config1 = Inr config'"
      by (cases "cp_set config section ((if a = AStr [] then ''# '' else []) @ n) (py_str sf a)")
         (auto simp: Let_def split: if_splits)
    from Cons.IH [OF this m] show ?thesis .
  qed
qed


lemma fields_map_frame:
  assumes "\<forall>(n, o') \<in> set items. n \<noteq> ''config'' \<longrightarrow>
             (\<forall>a. field_value args secs section n o' = Inr a \<longrightarrow> optionxform (field_key a n) \<noteq> k)"
  shows "fields_map sf args secs section items m k = m k"
  using assms
proof (induction items arbitrary: m)
  case Nil
  then show ?case by simp
next
  case (Cons f items)
  obtain n o' where f: "f = (n, o')" by (cases f)
  from Cons.prems have rest: "\<forall>(n, o') \<in> set items. n \<noteq> ''config'' \<longrightarrow>
             (\<forall>a. field_value args secs section n o' = Inr a \<longrightarrow> optionxform (field_key a n) \<noteq> k)"
    by simp
  show ?case
  proof (cases "field_value args secs section n o'")
    case (Inl e)
    with f show ?thesis by simp
  next
    case (Inr a)
    show ?thesis
    proof (cases "n = ''config''")
      case True
      with f Inr Cons.IH [OF rest] show ?thesis by simp
    next
      case False
      with Cons.prems f Inr have "optionxform (field_key a n) \<noteq> k" by simp
      with f Inr False Cons.IH [OF rest] show ?thesis by simp
    qed
  qed
qed

lemma fields_map_config:
  assumes "\<forall>(n, o') \<in> set items. clean_name n"
  shows "fields_map sf args secs section items m ''config'' = m ''config''"
proof (rule fields_map_frame)
  show "\<forall>(n, o') \<in> set items. n \<noteq> ''config'' \<longrightarrow>
      (\<forall>a. field_value args secs section n o' = Inr a \<longrightarrow> optionxform (field_key a n) \<noteq> ''config'')"
    using assms by (auto simp: optionxform_field_key field_key_not_config)
qed

lemma fields_map_present:
  assumes "\<forall>(n, o') \<in> set items. clean_name n" and "distinct (map fst items)"
    and "\<forall>(n, o') \<in> set items. \<exists>a. field_value args secs section n o' = Inr a"
    and "(name, opts) \<in> set items" and "name \<noteq> ''config''"
    and "field_value args secs section name opts = Inr a"
  shows "fields_map sf args secs section items m (field_key a name) = Some (py_str sf a)"
  using assms
proof (induction items arbitrary: m)
  case Nil
  then show ?case by simp
next
  case (Cons f items)
  obtain n o' where f: "f = (n, o')" by (cases f)
  from Cons.prems(3) f obtain b where b: "field_value args secs section n o' = Inr b" by auto
  from Cons.prems(1) have cl: "\<forall>(n, o') \<in> set items. clean_name n" by simp
  from Cons.prems(1) f have cn: "clean_name n" by simp
  from Cons.prems(2) have d: "distinct (map fst items)" by simp
  from Cons.prems(3) have v: "\<forall>(n, o') \<in> set items. \<exists>a. field_value args secs section n o' = Inr a"
    by simp
  show ?case
  proof (cases "(name, opts) = f")
    case True
    with f b Cons.prems(6) have ab: "b = a" and nn: "n = name" and oo: "o' = opts" by auto
    have "fields_map sf args secs section items
           (m(optionxform (field_key a name) \<mapsto> py_str sf a)) (field_key a name) =
          (m(optionxform (field_key a name) \<mapsto> py_str sf a)) (field_key a name)"
    proof (rule fields_map_frame, clarify)
      fix n2 o2 a2
      assume m2: "(n2, o2) \<in> set items" and "n2 \<noteq> ''config''"
        and "field_value args secs section n2 o2 = Inr a2"
        and e: "optionxform (field_key a2 n2) = field_key a name"
      from m2 cl have c2: "clean_name n2" by auto
      from e have "field_key a2 n2 = field_key a name" by (simp add: optionxform_field_key [OF c2])
      from field_key_inj [OF c2 _ this] cn nn have "n2 = name" by simp
      with m2 Cons.prems(2) f nn show False by (auto simp: image_iff)
    qed
    with f b ab nn cn Cons.prems(5) show ?thesis
      by (simp add: optionxform_field_key)
  next
    case False
    with Cons.prems(4) have mem: "(name, opts) \<in> set items" by simp
    note ih = Cons.IH [OF cl d v mem Cons.prems(5,6)]
    show ?thesis using f b ih by simp
  qed
qed

lemma fields_map_absent:
  assumes "\<forall>(n, o') \<in> set items. clean_name n" and "distinct (map fst items)"
    and "(name, opts) \<in> set items"
    and "field_value args secs section name opts = Inr (AStr [])"
  shows "fields_map sf args secs section items m name = m name"
proof -
  have "optionxform (field_key a2 n2) \<noteq> name"
    if m2: "(n2, o2) \<in> set items" and fv: "field_value args secs section n2 o2 = Inr a2"
    for n2 o2 a2
  proof
    assume e: "optionxform (field_key a2 n2) = name"
    from m2 assms(1) have c2: "clean_name n2" by auto
    from assms(1,3) have c: "clean_name name" by auto
    from e have k: "field_key a2 n2 = name" by (simp add: optionxform_field_key [OF c2])
    have "name = field_key (AStr ''x'') name" by (simp add: field_key_def)
    with k have "field_key a2 n2 = field_key (AStr ''x'') name" by simp
    from field_key_inj [OF c2 c this] have nn: "n2 = name" .
    with m2 assms(2,3) have "o2 = opts" by (meson eq_key_imp_eq_value)
    with fv nn assms(4) have "a2 = AStr []" by simp
    with k nn show False by (simp add: field_key_def)
  qed
  then have "\<forall>(n, o') \<in> set items. n \<noteq> ''config'' \<longrightarrow>
             (\<forall>a. field_value args secs section n o' = Inr a \<longrightarrow> optionxform (field_key a n) \<noteq> name)"
    by blast
  then show ?thesis by (rule fields_map_frame)
qed


lemma add_section_Inr:
  assumes "add_section config section = Inr config1"
  shows "config1 = config @ [(section, [])] \<and> map_of config section = None"
  using assms by (auto simp: add_section_def split: if_splits)

lemma write_sections_map:
  assumes "write_sections sf args secs schema config = Inr config'"
    and "distinct (map fst schema)"
  shows "map fst config' = map fst config @ map fst schema
     \<and> (\<forall>s. s \<notin> fst ` set schema \<longrightarrow> map_of config' s = map_of config s)
     \<and> (\<forall>(s, items) \<in> set schema.
          (\<exists>its. map_of config' s = Some its \<and> map_of its = fields_map sf args secs s items Map.empty)
          \<and> (\<forall>(n, o') \<in> set items. \<exists>a. field_value args secs s n o' = Inr a))"
  using assms
proof (induction schema arbitrary: config)
  case Nil
  then show ?case by simp
next
  case (Cons x schema)
  obtain s0 items0 where x: "x = (s0, items0)" by (cases x)
  from Cons.prems(1) x obtain config1 where
    a: "add_section config s0 = Inr config1"
    by (cases "add_section config s0") auto
  from Cons.prems(1) x a obtain config2 where
    w: "write_fields sf args secs s0 items0 config1 = Inr config2"
    and r: "write_sections sf args secs schema config2 = Inr config'"
    by (cases "write_fields sf args secs s0 items0 config1") auto
  from add_section_Inr [OF a] have c1: "config1 = config @ [(s0, [])]"
    and n0: "map_of config s0 = None" by auto
  have m1: "map_of config1 s0 = Some []" using c1 n0 by (simp add: map_add_def)
  from write_fields_map [OF w m1] obtain its0 where
    i0: "map_of config2 s0 = Some its0"
    "map_of its0 = fields_map sf args secs s0 items0 Map.empty"
    "\<forall>s. s \<noteq> s0 \<longrightarrow> map_of config2 s = map_of config1 s"
    "map fst config2 = map fst config1"
    by auto
  from Cons.prems(2) x have d: "distinct (map fst schema)" and ns: "s0 \<notin> fst ` set schema"
    by auto
  from Cons.IH [OF r d] have
    ih1: "map fst config' = map fst config2 @ map fst schema"
    and ih2: "\<forall>s. s \<notin> fst ` set schema \<longrightarrow> map_of config' s = map_of config2 s"
    and ih3: "\<forall>(s, items) \<in> set schema.
          (\<exists>its. map_of config' s = Some its \<and> map_of its = fields_map sf args secs s items Map.empty)
          \<and> (\<forall>(n, o') \<in> set items. \<exists>a. field_value args secs s n o' = Inr a)"
    by auto
  have p1: "map fst config' = map fst config @ map fst (x # schema)"
    using ih1 i0(4) c1 x by simp
  have p2: "\<forall>s. s \<notin> fst ` set (x # schema) \<longrightarrow> map_of config' s = map_of config s"
  proof (intro allI impI)
    fix s assume "s \<notin> fst ` set (x # schema)"
    with x have "s \<noteq> s0" and "s \<notin> fst ` set schema" by auto
    with ih2 i0(3) c1 show "map_of config' s = map_of config s"
      by (simp add: map_add_def split: option.splits)
  qed
  have h0: "(\<exists>its. map_of config' s0 = Some its \<and> map_of its = fields_map sf args secs s0 items0 Map.empty)
          \<and> (\<forall>(n, o') \<in> set items0. \<exists>a. field_value args secs s0 n o' = Inr a)"
    using ih2 ns i0(1,2) write_fields_values [OF w] by auto
  from p1 p2 h0 ih3 x show ?case by simp
qed

lemma SECTIONS_distinct: "distinct (map fst (SECTIONS home))"
  by (simp add: SECTIONS_def)

lemma optionxform_names:
  "optionxform ''config'' = ''config''" "optionxform ''logs-home'' = ''logs-home''"
  "optionxform ''verbose'' = ''verbose''" "optionxform ''testing'' = ''testing''"
  "optionxform ''force'' = ''force''" "optionxform ''energy'' = ''energy''"
  "optionxform ''energyioc-prefix'' = ''energyioc-prefix''"
  by code_simp+

lemma SECTIONS_clean:
  assumes "(section, items) \<in> set (SECTIONS home)"
  shows "(\<forall>(n, o') \<in> set items. clean_name n) \<and> distinct (map fst items)"
  using assms by (auto simp: SECTIONS_def clean_name_def optionxform_names startswith_def)

lemma str_nat_nonempty: "str_nat n \<noteq> []"
  by (subst str_nat.simps) simp

lemma py_str_empty:
  assumes "\<forall>f. sf f \<noteq> []"
  shows "py_str sf a = [] \<longleftrightarrow> a = AStr []"
  using assms by (cases a) (auto simp: str_int_def str_nat_nonempty)

lemma cp_write_line:
  assumes "(s, its) \<in> set config" and "(k, v) \<in> set its"
  shows "\<exists>pre post. cp_write config = pre @ k @ '' = '' @ replace_nl v @ [CHR 0x0A] @ post"
proof -
  from assms(2) obtain i1 i2 where i: "its = i1 @ (k, v) # i2" by (auto simp: in_set_conv_decomp)
  from assms(1) obtain c1 c2 where c: "config = c1 @ (s, its) # c2" by (auto simp: in_set_conv_decomp)
  have "write_section (s, its) =
     (''['' @ s @ '']'' @ [CHR 0x0A] @
        concat (map (\<lambda>kv. fst kv @ '' = '' @ replace_nl (snd kv) @ [CHR 0x0A]) i1)) @
     k @ '' = '' @ replace_nl v @ [CHR 0x0A] @
     (concat (map (\<lambda>kv. fst kv @ '' = '' @ replace_nl (snd kv) @ [CHR 0x0A]) i2) @ [CHR 0x0A])"
    by (simp add: write_section_def i)
  then have "cp_write config =
     (concat (map write_section c1) @ ''['' @ s @ '']'' @ [CHR 0x0A] @
        concat (map (\<lambda>kv. fst kv @ '' = '' @ replace_nl (snd kv) @ [CHR 0x0A]) i1)) @
     k @ '' = '' @ replace_nl v @ [CHR 0x0A] @
     (concat (map (\<lambda>kv. fst kv @ '' = '' @ replace_nl (snd kv) @ [CHR 0x0A]) i2) @ [CHR 0x0A]
        @ concat (map write_section c2))"
    by (simp add: cp_write_def c)
  then show ?thesis by blast
qed

lemma write_file_Inr:
  assumes "write_file sf home writable files config_file args sections = Inr files'"
  shows "\<exists>config. write_config sf home args sections = Inr config
           \<and> files' = files(config_file \<mapsto> cp_write config)"
  using assms by (auto simp: write_file_def split: sum.splits if_splits)

lemma write_config_sections:
  assumes "write_config sf home args sections = Inr config"
  shows "map fst config = [''general'', ''energy'', ''energyioc'']"
    and "(section, items) \<in> set (SECTIONS home) \<Longrightarrow>
          \<exists>its. (section, its) \<in> set config
             \<and> map_of its = fields_map sf args sections section items Map.empty"
    and "(section, items) \<in> set (SECTIONS home) \<Longrightarrow> (n, o') \<in> set items \<Longrightarrow>
          \<exists>a. field_value args sections section n o' = Inr a"
    and "(s, its) \<in> set config \<Longrightarrow>
          \<exists>items. (s, items) \<in> set (SECTIONS home)
             \<and> map_of its = fields_map sf args sections s items Map.empty"
proof -
  from assms have w: "write_sections sf args sections (SECTIONS home) [] = Inr config"
    by (simp add: write_config_def)
  note m = write_sections_map [OF w SECTIONS_distinct]
  from m show k: "map fst config = [''general'', ''energy'', ''energyioc'']"
    by (simp add: SECTIONS_def)
  then have d: "distinct (map fst config)" by simp
  { assume s: "(section, items) \<in> set (SECTIONS home)"
    with m obtain its where "map_of config section = Some its"
      "map_of its = fields_map sf args sections section items Map.empty" by fastforce
    then show "\<exists>its. (section, its) \<in> set config
             \<and> map_of its = fields_map sf args sections section items Map.empty"
      using map_of_SomeD by fast
  }
  { assume s: "(section, items) \<in> set (SECTIONS home)" and n: "(n, o') \<in> set items"
    with m show "\<exists>a. field_value args sections section n o' = Inr a" by fastforce
  }
  { assume c: "(s, its) \<in> set config"
    with d have ms: "map_of config s = Some its" by simp
    from c have "s \<in> set (map fst config)" by force
    with m have "s \<in> fst ` set (SECTIONS home)" by simp
    then obtain items where i: "(s, items) \<in> set (SECTIONS home)" by auto
    with m ms have "map_of its = fields_map sf args sections s items Map.empty" by fastforce
    with i show "\<exists>items. (s, items) \<in> set (SECTIONS home)
             \<and> map_of its = fields_map sf args sections s items Map.empty" by blast
  }
qed

lemma fields_map_keys:
  assumes "fields_map sf args secs section items m k = Some v"
  shows "m k = Some v \<or>
     (\<exists>n o' a. (n, o') \<in> set items \<and> n \<noteq> ''config''
        \<and> field_value args secs section n o' = Inr a \<and> k = optionxform (field_key a n))"
  using assms
proof (induction items arbitrary: m)
  case Nil
  then show ?case by simp
next
  case (Cons f items)
  obtain n o' where f: "f = (n, o')" by (cases f)
  show ?case
  proof (cases "field_value args secs section n o'")
    case (Inl e)
    with Cons.prems f show ?thesis by simp
  next
    case (Inr a)
    show ?thesis
    proof (cases "n = ''config''")
      case True
      with Cons.prems f Inr have "fields_map sf args secs section items m k = Some v" by simp
      from Cons.IH [OF this] show ?thesis by auto
    next
      case False
      with Cons.prems f Inr
      have "fields_map sf args secs section items (m(optionxform (field_key a n) \<mapsto> py_str sf a)) k = Some v"
        by simp
      from Cons.IH [OF this] show ?thesis
      proof
        assume u: "(m(optionxform (field_key a n) \<mapsto> py_str sf a)) k = Some v"
        show ?thesis
        proof (cases "k = optionxform (field_key a n)")
          case True
          with f False Inr show ?thesis by auto
        next
          case ne: False
          with u show ?thesis by simp
        qed
      next
        assume "\<exists>n o' a. (n, o') \<in> set items \<and> n \<noteq> ''config''
          \<and> field_value args secs section n o' = Inr a \<and> k = optionxform (field_key a n)"
        then show ?thesis by auto
      qed
    qed
  qed
qed

lemma SECTIONS_names:
  assumes "(s, items) \<in> set (SECTIONS home)" and "(n, opts) \<in> set items"
  shows "n \<in> {''config'', ''logs-home'', ''verbose'', ''testing'', ''force'', ''energy'', ''energyioc-prefix''}"
  using assms unfolding SECTIONS_def by auto

text \<open>
  C9. Whatever the arguments, the selected sections and the value of the \<^verbatim>\<open>config\<close>
  field, when \<^verbatim>\<open>write\<close> produces a file, the file is the text of a parser that holds the
  three sections of the schema, and every option of every section is a field of that section
  of the schema other than \<^verbatim>\<open>config\<close>, under its name or under its name with the comment
  marker \<^verbatim>\<open># \<close> in front. So the \<^verbatim>\<open>config\<close> field is written under no key: neither
  as \<^verbatim>\<open>config\<close> nor commented as \<^verbatim>\<open># config\<close>.
\<close>

theorem write_never_writes_config:
  assumes "write_file sf home writable files config_file args sections = Inr files'"
  shows "\<exists>config. write_config sf home args sections = Inr config
      \<and> files' = files(config_file \<mapsto> cp_write config)
      \<and> map fst config = [''general'', ''energy'', ''energyioc'']
      \<and> (\<forall>s its k v. (s, its) \<in> set config \<and> (k, v) \<in> set its \<longrightarrow>
            k \<noteq> ''config'' \<and> k \<noteq> ''# config''
            \<and> (\<exists>items n opts. (s, items) \<in> set (SECTIONS home) \<and> (n, opts) \<in> set items
                  \<and> n \<noteq> ''config'' \<and> (k = n \<or> k = ''# '' @ n)))"
proof -
  from write_file_Inr [OF assms] obtain config where
    c: "write_config sf home args sections = Inr config"
    and f: "files' = files(config_file \<mapsto> cp_write config)" by blast
  have key: "k \<noteq> ''config'' \<and> k \<noteq> ''# config''
            \<and> (\<exists>items n opts. (s, items) \<in> set (SECTIONS home) \<and> (n, opts) \<in> set items
                  \<and> n \<noteq> ''config'' \<and> (k = n \<or> k = ''# '' @ n))"
    if x: "(s, its) \<in> set config" and kv: "(k, v) \<in> set its" for s its k v
  proof -
    from write_config_sections(4) [OF c x] obtain items where
      i: "(s, items) \<in> set (SECTIONS home)"
      and m: "map_of its = fields_map sf args sections s items Map.empty" by blast
    from kv obtain v' where "map_of its k = Some v'" by (blast dest: weak_map_of_SomeI)
    with m have "fields_map sf args sections s items Map.empty k = Some v'" by simp
    from fields_map_keys [OF this] obtain n o' a where
      n: "(n, o') \<in> set items" "n \<noteq> ''config''" "k = optionxform (field_key a n)" by auto
    from SECTIONS_clean [OF i] n(1) have cl: "clean_name n" by auto
    then have k: "k = field_key a n" using n(3) by (simp add: optionxform_field_key)
    then have k': "k = n \<or> k = ''# '' @ n" by (simp add: field_key_def)
    from SECTIONS_names [OF i n(1)] n(2) k' have "k \<noteq> ''config'' \<and> k \<noteq> ''# config''"
      by auto
    with i n(1,2) k' show ?thesis by blast
  qed
  note k = write_config_sections(1) [OF c]
  from key have a: "\<forall>s its k v. (s, its) \<in> set config \<and> (k, v) \<in> set its \<longrightarrow>
            k \<noteq> ''config'' \<and> k \<noteq> ''# config''
            \<and> (\<exists>items n opts. (s, items) \<in> set (SECTIONS home) \<and> (n, opts) \<in> set items
                  \<and> n \<noteq> ''config'' \<and> (k = n \<or> k = ''# '' @ n))" by blast
  show ?thesis by (rule exI [of _ config]) (intro conjI c f k a)
qed

text \<open>
  C8. When \<^verbatim>\<open>write\<close> produces a file, every field of every schema section other than
  \<^verbatim>\<open>config\<close> is in it: its section holds the field's value under the field's name, or,
  when the value written is the empty string, under the name prefixed with the comment
  marker \<^verbatim>\<open># \<close> (and then not under the plain name); the line \<^verbatim>\<open>key = value\<close> stands in
  the text of the file. (\<^verbatim>\<open>str\<close> of a float is never empty.)
\<close>

theorem write_keeps_every_field:
  assumes "write_file sf home writable files config_file args sections = Inr files'"
    and "(section, items) \<in> set (SECTIONS home)" and "(name, opts) \<in> set items"
    and "name \<noteq> ''config''"
    and "\<forall>f. sf f \<noteq> []"
  shows "\<exists>config its a. write_config sf home args sections = Inr config
      \<and> files' config_file = Some (cp_write config)
      \<and> (section, its) \<in> set config
      \<and> field_value args sections section name opts = Inr a
      \<and> map_of its ((if py_str sf a = [] then ''# '' else []) @ name) = Some (py_str sf a)
      \<and> (if py_str sf a = [] then map_of its name = None else True)
      \<and> (\<exists>pre post. cp_write config =
            pre @ (if py_str sf a = [] then ''# '' else []) @ name @ '' = ''
              @ replace_nl (py_str sf a) @ [CHR 0x0A] @ post)"
proof -
  from write_file_Inr [OF assms(1)] obtain config where
    c: "write_config sf home args sections = Inr config"
    and f: "files' = files(config_file \<mapsto> cp_write config)" by blast
  from write_config_sections(2) [OF c assms(2)] obtain its where
    i: "(section, its) \<in> set config"
    and m: "map_of its = fields_map sf args sections section items Map.empty" by blast
  from write_config_sections(3) [OF c assms(2,3)] obtain a where
    a: "field_value args sections section name opts = Inr a" by blast
  from SECTIONS_clean [OF assms(2)] have cl: "\<forall>(n, o') \<in> set items. clean_name n"
    and d: "distinct (map fst items)" by auto
  have v: "\<forall>(n, o') \<in> set items. \<exists>a. field_value args sections section n o' = Inr a"
    using write_config_sections(3) [OF c assms(2)] by auto
  have k: "(if py_str sf a = [] then ''# '' else []) @ name = field_key a name"
    by (simp add: field_key_def py_str_empty [OF assms(5)])
  from fields_map_present [OF cl d v assms(3,4) a] m
  have p: "map_of its (field_key a name) = Some (py_str sf a)" by simp
  have ab: "map_of its name = None" if "py_str sf a = []"
  proof -
    from that have "a = AStr []" by (simp add: py_str_empty [OF assms(5)])
    with a fields_map_absent [OF cl d assms(3)] m show ?thesis by simp
  qed
  from p have "(field_key a name, py_str sf a) \<in> set its" by (rule map_of_SomeD)
  from cp_write_line [OF i this] obtain pre post where
    l: "cp_write config = pre @ field_key a name @ '' = '' @ replace_nl (py_str sf a) @ [CHR 0x0A] @ post"
    by blast
  have l': "cp_write config =
            pre @ (if py_str sf a = [] then ''# '' else []) @ name @ '' = ''
              @ replace_nl (py_str sf a) @ [CHR 0x0A] @ post"
    using l unfolding k [symmetric] by simp
  have p': "map_of its ((if py_str sf a = [] then ''# '' else []) @ name) = Some (py_str sf a)"
    using p unfolding k .
  have ab': "if py_str sf a = [] then map_of its name = None else True"
    using ab by simp
  have f': "files' config_file = Some (cp_write config)" using f by simp
  from l' have e: "\<exists>pre post. cp_write config =
            pre @ (if py_str sf a = [] then ''# '' else []) @ name @ '' = ''
              @ replace_nl (py_str sf a) @ [CHR 0x0A] @ post" by blast
  show ?thesis
    apply (rule exI [of _ config])
    apply (rule exI [of _ its])
    apply (rule exI [of _ a])
    apply (intro conjI)
    apply (rule c f' i a p' ab' e)+
    done
qed


lemma example_write_config:
  "write_config example_str_float ''/home/user'' (Some example_args) (Some MONO_PARAMS) =
     Inr example_config"
  by code_simp

lemma example_write_file:
  "write_file example_str_float ''/home/user'' every_path Map.empty ''/data/run.conf''
      (Some example_args) (Some MONO_PARAMS) =
     Inr [''/data/run.conf'' \<mapsto> cp_write example_config]"
  by (simp add: write_file_def example_write_config every_path_def)

theorem write_never_writes_config_witness:
  "write_file example_str_float ''/home/user'' every_path Map.empty ''/data/run.conf''
      (Some example_args) (Some MONO_PARAMS) =
     Inr [''/data/run.conf'' \<mapsto> cp_write example_config]
   \<and> list_all (\<lambda>s. list_all (\<lambda>kv. fst kv \<noteq> ''config'' \<and> fst kv \<noteq> ''# config'') (snd s))
        example_config"
proof -
  from write_never_writes_config [OF example_write_file] obtain config where
    c: "write_config example_str_float ''/home/user'' (Some example_args) (Some MONO_PARAMS) = Inr config"
    and k: "\<forall>s its k v. (s, its) \<in> set config \<and> (k, v) \<in> set its \<longrightarrow>
            k \<noteq> ''config'' \<and> k \<noteq> ''# config''
            \<and> (\<exists>items n opts. (s, items) \<in> set (SECTIONS ''/home/user'') \<and> (n, opts) \<in> set items
                  \<and> n \<noteq> ''config'' \<and> (k = n \<or> k = ''# '' @ n))"
    by blast
  from c have e: "config = example_config" by (simp add: example_write_config)
  have "fst kv \<noteq> ''config'' \<and> fst kv \<noteq> ''# config''"
    if "s \<in> set example_config" and "kv \<in> set (snd s)" for s kv
  proof -
    from that e have "(fst s, snd s) \<in> set config \<and> (fst kv, snd kv) \<in> set (snd s)" by simp
    with k show ?thesis by blast
  qed
  then have "list_all (\<lambda>s. list_all (\<lambda>kv. fst kv \<noteq> ''config'' \<and> fst kv \<noteq> ''# config'') (snd s))
        example_config"
    by (simp add: list_all_iff)
  with example_write_file show ?thesis by (rule conjI)
qed

theorem write_keeps_every_field_witness:
  "write_file example_str_float ''/home/user'' every_path Map.empty ''/data/run.conf''
      (Some example_args) (Some MONO_PARAMS) =
     Inr [''/data/run.conf'' \<mapsto> cp_write example_config]
   \<and> field_value (Some example_args) (Some MONO_PARAMS) ''energyioc'' ''energyioc-prefix''
        (str_opt ''2bm:MCTOptics:'') = Inr (AStr [])
   \<and> (\<exists>its. (''energyioc'', its) \<in> set example_config
        \<and> map_of its ''# energyioc-prefix'' = Some []
        \<and> map_of its ''energyioc-prefix'' = None)"
proof -
  have h2: "(''energyioc'', [(''energyioc-prefix'', str_opt ''2bm:MCTOptics:'')])
      \<in> set (SECTIONS ''/home/user'')"
    by (simp add: SECTIONS_def)
  have h3: "(''energyioc-prefix'', str_opt ''2bm:MCTOptics:'')
      \<in> set [(''energyioc-prefix'', str_opt ''2bm:MCTOptics:'')]"
    by simp
  have h4: "''energyioc-prefix'' \<noteq> ''config''" by simp
  have h5: "\<forall>f. example_str_float f \<noteq> []" by (simp add: example_str_float_def)
  have v: "field_value (Some example_args) (Some MONO_PARAMS) ''energyioc'' ''energyioc-prefix''
        (str_opt ''2bm:MCTOptics:'') = Inr (AStr [])"
    by code_simp
  from write_keeps_every_field [OF example_write_file h2 h3 h4 h5]
  have "\<exists>its. (''energyioc'', its) \<in> set example_config
        \<and> map_of its ''# energyioc-prefix'' = Some []
        \<and> map_of its ''energyioc-prefix'' = None"
    by (auto simp: example_write_config v)
  with example_write_file v show ?thesis by blast
qed

section \<open>Parsers built by \<^verbatim>\<open>Params.add_arguments\<close>\<close>

lemma add_argument_Inr:
  assumes "add_argument p name opts = Inr p'"
  shows "p' = p @ [field_action name opts]"
  using assms by (auto simp: add_argument_def field_action_def Let_def split: if_splits)

lemma add_names_Inr:
  assumes "add_names items names p = Inr p'"
  shows "\<exists>q. p' = p @ q \<and> set q = {field_action n opts | n opts. n \<in> set names \<and> map_of items n = Some opts}"
  using assms
proof (induction names arbitrary: p)
  case Nil
  then show ?case by simp
next
  case (Cons n names)
  from Cons.prems obtain opts p1 where o: "map_of items n = Some opts"
    and a: "add_argument p n opts = Inr p1" and r: "add_names items names p1 = Inr p'"
    by (auto split: option.splits sum.splits)
  from Cons.IH [OF r] obtain q where q: "p' = p1 @ q"
    "set q = {field_action n opts | n opts. n \<in> set names \<and> map_of items n = Some opts}" by blast
  from add_argument_Inr [OF a] q(1) have "p' = p @ (field_action n opts # q)" by simp
  moreover have "set (field_action n opts # q) =
      {field_action m opts | m opts. m \<in> set (n # names) \<and> map_of items m = Some opts}"
    using q(2) o by auto
  ultimately show ?case by blast
qed

lemma add_parser_args_Inr:
  assumes "add_parser_args home secs p = Inr p'"
  shows "\<exists>q. p' = p @ q \<and> set q = {field_action n opts | n opts.
            \<exists>sec items. sec \<in> set secs \<and> (sec, items) \<in> set (SECTIONS home) \<and> (n, opts) \<in> set items}"
  using assms
proof (induction secs arbitrary: p)
  case Nil
  then show ?case by simp
next
  case (Cons sec secs)
  from Cons.prems obtain items p1 where s: "map_of (SECTIONS home) sec = Some items"
    and a: "add_names items (sort (map fst items)) p = Inr p1"
    and r: "add_parser_args home secs p1 = Inr p'"
    by (auto split: option.splits sum.splits)
  from s have mem: "(sec, items) \<in> set (SECTIONS home)" by (rule map_of_SomeD)
  have uniq: "items' = items" if "(sec, items') \<in> set (SECTIONS home)" for items'
    using that s SECTIONS_distinct [of home] by simp
  from SECTIONS_clean [OF mem] have d: "distinct (map fst items)" by simp
  from add_names_Inr [OF a] obtain q1 where q1: "p1 = p @ q1"
    "set q1 = {field_action n opts | n opts. n \<in> set (sort (map fst items)) \<and> map_of items n = Some opts}"
    by blast
  have e: "(n \<in> set (sort (map fst items)) \<and> map_of items n = Some opts) = ((n, opts) \<in> set items)"
    for n opts
    using d by (auto intro: rev_image_eqI)
  have q1': "set q1 = {field_action n opts | n opts. (n, opts) \<in> set items}"
    by (simp only: q1(2) e)
  from Cons.IH [OF r] obtain q2 where q2: "p' = p1 @ q2"
    "set q2 = {field_action n opts | n opts.
            \<exists>sec items. sec \<in> set secs \<and> (sec, items) \<in> set (SECTIONS home) \<and> (n, opts) \<in> set items}"
    by blast
  have "p' = p @ (q1 @ q2)" using q1(1) q2(1) by simp
  moreover have "set (q1 @ q2) = {field_action n opts | n opts.
            \<exists>s items. s \<in> set (sec # secs) \<and> (s, items) \<in> set (SECTIONS home) \<and> (n, opts) \<in> set items}"
  proof -
    have "(\<exists>s its. s \<in> set (sec # secs) \<and> (s, its) \<in> set (SECTIONS home) \<and> (n, opts) \<in> set its)
        = ((n, opts) \<in> set items \<or>
           (\<exists>s its. s \<in> set secs \<and> (s, its) \<in> set (SECTIONS home) \<and> (n, opts) \<in> set its))"
      for n opts
      using mem uniq by (metis set_ConsD list.set_intros(1,2))
    then show ?thesis
      unfolding set_append q1' q2(2) by (simp only:) blast
  qed
  ultimately show ?case by blast
qed

lemma schema_fields_list:
  "schema_fields home =
     [(''config'', str_opt (CONFIG_FILE_NAME home)),
      (''logs-home'', str_opt (LOGS_HOME home)),
      (''verbose'', flag_opt), (''testing'', flag_opt), (''force'', flag_opt),
      (''energy'', \<lparr>opt_default = Atom (AInt (- 1)), opt_type = Some TFloat,
            opt_action = None, opt_nargs = None\<rparr>),
      (''energyioc-prefix'', str_opt ''2bm:MCTOptics:'')]"
  by (simp add: schema_fields_def SECTIONS_def)

lemma schema_fields_mem:
  "(sec, items) \<in> set (SECTIONS home) \<Longrightarrow> (n, opts) \<in> set items \<Longrightarrow> (n, opts) \<in> set (schema_fields home)"
  unfolding schema_fields_def set_concat set_map by force

lemma add_arguments_actions:
  assumes "add_arguments home (Params sections) ArgumentParser = Inr parser"
  shows "set parser = insert help_action {field_action n opts | n opts.
            \<exists>sec items. sec \<in> set (Params sections) \<and> (sec, items) \<in> set (SECTIONS home)
               \<and> (n, opts) \<in> set items}"
proof -
  from assms have "add_parser_args home (Params sections) ArgumentParser = Inr parser"
    by (simp add: add_arguments_def)
  from add_parser_args_Inr [OF this] obtain q where "parser = ArgumentParser @ q"
    "set q = {field_action n opts | n opts.
            \<exists>sec items. sec \<in> set (Params sections) \<and> (sec, items) \<in> set (SECTIONS home)
               \<and> (n, opts) \<in> set items}" by blast
  then show ?thesis by (simp add: ArgumentParser_def help_action_def)
qed

lemma built_action_cases:
  assumes "add_arguments home (Params sections) ArgumentParser = Inr parser" and "a \<in> set parser"
  shows "a = help_action \<or> (\<exists>n opts. (n, opts) \<in> set (schema_fields home) \<and> a = field_action n opts)"
  using assms(2) unfolding add_arguments_actions [OF assms(1)]
  by (auto dest: schema_fields_mem)

lemma built_action_mem:
  assumes "add_arguments home (Params sections) ArgumentParser = Inr parser"
    and "sec \<in> set (Params sections)" and "(sec, items) \<in> set (SECTIONS home)"
    and "(n, opts) \<in> set items"
  shows "field_action n opts \<in> set parser"
  unfolding add_arguments_actions [OF assms(1)] using assms(2-4) by blast

lemma schema_fields_functional:
  assumes "(n, opts) \<in> set (schema_fields home)" and "(n', opts') \<in> set (schema_fields home)"
    and "replace_char CHR ''-'' CHR ''_'' n = replace_char CHR ''-'' CHR ''_'' n'"
  shows "n = n' \<and> opts = opts'"
proof -
  from assms(1) have a: "n \<in> {''config'', ''logs-home'', ''verbose'', ''testing'', ''force'', ''energy'', ''energyioc-prefix''}"
    unfolding schema_fields_list by auto
  from assms(2) have b: "n' \<in> {''config'', ''logs-home'', ''verbose'', ''testing'', ''force'', ''energy'', ''energyioc-prefix''}"
    unfolding schema_fields_list by auto
  from a b assms(3) have n: "n = n'"
    by (auto simp: replace_char_def)
  from assms(1,2) n have "opts = opts'" unfolding schema_fields_list by auto
  with n show ?thesis by simp
qed

lemma schema_names:
  assumes "(n, opts) \<in> set (schema_fields home)"
  shows "n \<in> {''config'', ''logs-home'', ''verbose'', ''testing'', ''force'', ''energy'', ''energyioc-prefix''}"
  using assms unfolding schema_fields_list by auto

lemma option_string_actions_mem:
  "((k, a) \<in> set (option_string_actions p)) = (a \<in> set p \<and> k \<in> set (option_strings a))"
  by (auto simp: option_string_actions_def)

lemma built_lookup:
  assumes "add_arguments home (Params sections) ArgumentParser = Inr parser"
    and "sec \<in> set (Params sections)" and "(sec, items) \<in> set (SECTIONS home)"
    and "(n, opts) \<in> set items"
  shows "map_of (option_string_actions parser) (''--'' @ n) = Some (field_action n opts)"
proof -
  let ?k = "''--'' @ n"
  note sf = schema_fields_mem [OF assms(3,4)]
  have "field_action n opts \<in> set parser" using assms by (rule built_action_mem)
  then have "(?k, field_action n opts) \<in> set (option_string_actions parser)"
    unfolding option_string_actions_mem by (simp add: field_action_def)
  then obtain a where a: "map_of (option_string_actions parser) ?k = Some a"
    by (blast dest: weak_map_of_SomeI)
  then have "(?k, a) \<in> set (option_string_actions parser)" by (rule map_of_SomeD)
  then have ap: "a \<in> set parser" and k: "?k \<in> set (option_strings a)"
    unfolding option_string_actions_mem by simp_all
  from built_action_cases [OF assms(1) ap] have "a = field_action n opts"
  proof
    assume "a = help_action"
    with k have "n = ''help''" by (simp add: help_action_def)
    with schema_names [OF sf] show ?thesis by simp
  next
    assume "\<exists>n' opts'. (n', opts') \<in> set (schema_fields home) \<and> a = field_action n' opts'"
    then obtain n' opts' where f: "(n', opts') \<in> set (schema_fields home)" "a = field_action n' opts'"
      by blast
    with k have "n' = n" by (simp add: field_action_def)
    with schema_fields_functional [OF sf f(1)] f(2) show ?thesis by simp
  qed
  with a show ?thesis by simp
qed

lemma built_no_equals:
  assumes "add_arguments home (Params sections) ArgumentParser = Inr parser"
  shows "list_all (\<lambda>s. CHR ''='' \<notin> set s) (map fst (option_string_actions parser))"
proof -
  have "CHR ''='' \<notin> set k" if "(k, a) \<in> set (option_string_actions parser)" for k a
  proof -
    from that have ap: "a \<in> set parser" and k: "k \<in> set (option_strings a)"
      unfolding option_string_actions_mem by simp_all
    from built_action_cases [OF assms ap] show ?thesis
    proof
      assume "a = help_action"
      with k show ?thesis by (auto simp: help_action_def)
    next
      assume "\<exists>n opts. (n, opts) \<in> set (schema_fields home) \<and> a = field_action n opts"
      then obtain n opts where f: "(n, opts) \<in> set (schema_fields home)" "a = field_action n opts"
        by blast
      from f(2) k have "k = ''--'' @ n" by (simp add: field_action_def)
      with schema_names [OF f(1)] show ?thesis by auto
    qed
  qed
  then show ?thesis by (auto simp: list_all_iff)
qed

lemma field_action_default:
  assumes "(n, opts) \<in> set (schema_fields home)"
  shows "(case (kind (field_action n opts), dflt (field_action n opts)) of
            (Store (Some TFloat), Some (Atom (AStr s))) \<Rightarrow> False | _ \<Rightarrow> True)"
  using assms unfolding schema_fields_list
  by (auto simp: field_action_def str_opt_def flag_opt_def)

lemma built_defaults_typed:
  assumes "add_arguments home (Params sections) ArgumentParser = Inr parser"
  shows "list_all (\<lambda>a. case (kind a, dflt a) of
              (Store (Some TFloat), Some (Atom (AStr s))) \<Rightarrow> False | _ \<Rightarrow> True) parser"
proof -
  have "(case (kind a, dflt a) of
              (Store (Some TFloat), Some (Atom (AStr s))) \<Rightarrow> False | _ \<Rightarrow> True)"
    if "a \<in> set parser" for a
    using built_action_cases [OF assms that] field_action_default [of _ _ home]
    by (auto simp: help_action_def)
  then show ?thesis by (simp add: list_all_iff)
qed

lemma setattr_same: "map_of ns d = Some v \<Longrightarrow> setattr ns d v = ns"
  by (induction ns d v rule: setattr.induct) (auto split: if_splits)

lemma get_value_str: "ty \<noteq> Some TFloat \<Longrightarrow> get_value float_of ty s = Inr (Atom (AStr s))"
  by (cases ty) (auto simp: get_value_def split: ptype.splits)

lemma convert_defaults_id:
  assumes "list_all (\<lambda>a. case (kind a, dflt a) of
              (Store (Some TFloat), Some (Atom (AStr s))) \<Rightarrow> False | _ \<Rightarrow> True) q"
  shows "convert_defaults float_of q ns = Inr ns"
  using assms
proof (induction q arbitrary: ns)
  case Nil
  then show ?case by simp
next
  case (Cons a q)
  then have ih: "convert_defaults float_of q ns = Inr ns" for ns by simp
  show ?case
  proof (cases "\<exists>d s ty. dest a = Some d \<and> dflt a = Some (Atom (AStr s)) \<and> kind a = Store ty
        \<and> map_of ns d = Some (Atom (AStr s))")
    case True
    then obtain d s ty where a: "dest a = Some d" "dflt a = Some (Atom (AStr s))" "kind a = Store ty"
        "map_of ns d = Some (Atom (AStr s))"
      by blast
    from Cons.prems a have "ty \<noteq> Some TFloat" by auto
    then have "get_value float_of ty s = Inr (Atom (AStr s))" by (rule get_value_str)
    with a ih show ?thesis by (simp add: setattr_same)
  next
    case False
    then show ?thesis
      by (auto simp: ih split: option.splits pyval.splits atom.splits akind.splits)
  qed
qed

lemma map_of_setattr: "map_of (setattr ns k v) = (map_of ns)(k \<mapsto> v)"
  by (induction ns k v rule: setattr.induct) (auto simp: fun_eq_iff)

lemma map_of_init_namespace:
  "map_of (init_namespace p ns) d =
     (case map_of ns d of Some v \<Rightarrow> Some v | None \<Rightarrow> map_of (defaults p) d)"
proof (induction p arbitrary: ns)
  case Nil
  then show ?case by (simp add: defaults_def split: option.splits)
next
  case (Cons a p)
  show ?case
  proof (cases "\<exists>d' v. dest a = Some d' \<and> dflt a = Some v")
    case True
    then obtain d' v where a: "dest a = Some d'" "dflt a = Some v" by blast
    then have d: "defaults (a # p) = (d', v) # defaults p" by (simp add: defaults_def)
    show ?thesis
      using a unfolding d
      by (simp add: Cons.IH hasattr_def map_of_setattr split: option.splits)
  next
    case False
    then have d: "defaults (a # p) = defaults p"
      by (auto simp: defaults_def split: option.splits)
    from False show ?thesis
      unfolding d by (cases "dest a"; cases "dflt a") (simp_all add: Cons.IH)
  qed
qed

lemma defaults_mem:
  "((d, v) \<in> set (defaults p)) = (\<exists>a \<in> set p. dest a = Some d \<and> dflt a = Some v)"
proof
  assume "(d, v) \<in> set (defaults p)"
  then show "\<exists>a \<in> set p. dest a = Some d \<and> dflt a = Some v"
    by (auto simp: defaults_def split: option.splits)
next
  assume "\<exists>a \<in> set p. dest a = Some d \<and> dflt a = Some v"
  then obtain a where "a \<in> set p" "dest a = Some d" "dflt a = Some v" by blast
  then show "(d, v) \<in> set (defaults p)"
    unfolding defaults_def set_concat set_map by force
qed

lemma built_defaults:
  assumes "add_arguments home (Params sections) ArgumentParser = Inr parser"
    and "sec \<in> set (Params sections)" and "(sec, items) \<in> set (SECTIONS home)"
    and "(n, opts) \<in> set items"
  shows "map_of (init_namespace parser []) (replace_char CHR ''-'' CHR ''_'' n) = Some (opt_default opts)"
proof -
  let ?d = "replace_char CHR ''-'' CHR ''_'' n"
  note sf = schema_fields_mem [OF assms(3,4)]
  have "field_action n opts \<in> set parser" using assms by (rule built_action_mem)
  then have "(?d, opt_default opts) \<in> set (defaults parser)"
    unfolding defaults_mem by (rule rev_bexI) (simp add: field_action_def)
  then obtain v where v: "map_of (defaults parser) ?d = Some v"
    by (blast dest: weak_map_of_SomeI)
  then have "(?d, v) \<in> set (defaults parser)" by (rule map_of_SomeD)
  then obtain a where ap: "a \<in> set parser" and a: "dest a = Some ?d" "dflt a = Some v"
    unfolding defaults_mem by blast
  from built_action_cases [OF assms(1) ap] have "v = opt_default opts"
  proof
    assume "a = help_action"
    with a show ?thesis by (simp add: help_action_def)
  next
    assume "\<exists>n' opts'. (n', opts') \<in> set (schema_fields home) \<and> a = field_action n' opts'"
    then obtain n' opts' where f: "(n', opts') \<in> set (schema_fields home)" "a = field_action n' opts'"
      by blast
    with a have "replace_char CHR ''-'' CHR ''_'' n = replace_char CHR ''-'' CHR ''_'' n'"
      by (simp add: field_action_def)
    from schema_fields_functional [OF sf f(1) this] f(2) a show ?thesis
      by (simp add: field_action_def)
  qed
  with v show ?thesis by (simp add: map_of_init_namespace)
qed

lemma convert_defaults_hasattr:
  "convert_defaults float_of q ns = Inr ns' \<Longrightarrow> hasattr ns d \<Longrightarrow> hasattr ns' d"
proof (induction q arbitrary: ns)
  case Nil
  then show ?case by simp
next
  case (Cons a q)
  show ?case
  proof (cases "\<exists>d' s ty. dest a = Some d' \<and> dflt a = Some (Atom (AStr s)) \<and> kind a = Store ty
        \<and> map_of ns d' = Some (Atom (AStr s))")
    case True
    then obtain d' s ty where a: "dest a = Some d'" "dflt a = Some (Atom (AStr s))" "kind a = Store ty"
        "map_of ns d' = Some (Atom (AStr s))"
      by blast
    with Cons.prems(1) obtain v where "convert_defaults float_of q (setattr ns d' v) = Inr ns'"
      by (auto split: sum.splits)
    moreover from Cons.prems(2) have "hasattr (setattr ns d' v) d"
      by (simp add: hasattr_def map_of_setattr)
    ultimately show ?thesis by (rule Cons.IH)
  next
    case False
    with Cons.prems(1) have "convert_defaults float_of q ns = Inr ns'"
      by (auto split: option.splits pyval.splits atom.splits akind.splits if_splits)
    then show ?thesis using Cons.prems(2) by (rule Cons.IH)
  qed
qed

lemma init_namespace_hasattr:
  assumes "a \<in> set p" and "dest a = Some d" and "dflt a = Some v"
  shows "hasattr (init_namespace p []) d"
proof -
  from assms have "(d, v) \<in> set (defaults p)" unfolding defaults_mem by blast
  then obtain v' where "map_of (defaults p) d = Some v'" by (blast dest: weak_map_of_SomeI)
  then show ?thesis by (simp add: hasattr_def map_of_init_namespace)
qed

section \<open>The argument merger without arguments\<close>

text \<open>
  C7, as amended. When the process has no argument (\<^verbatim>\<open>sys.argv\<close> of length one),
  \<^verbatim>\<open>parse_known_args\<close> hands the parser the empty token list and reads no config file
  (the result does not depend on the files). The result is not the empty parameter set:
  whenever the call returns, the result has an attribute for every argument of the parser
  that has a default; and for a parser built by \<^verbatim>\<open>Params.add_arguments\<close> the call
  returns, the result is what \<^verbatim>\<open>Params.get_defaults\<close> returns, it is not empty, and it
  holds the compiled-in default of every field of every section registered.
\<close>

theorem parse_known_args_no_arguments:
  assumes "length argv = 1"
  shows "parse_known_args float_of home fs argv parser subparser = ap_parse_known_args float_of parser []
    \<and> parse_known_args float_of home fs' argv parser subparser =
        parse_known_args float_of home fs argv parser subparser
    \<and> (\<forall>ns a d v. parse_known_args float_of home fs argv parser subparser = Inr ns
          \<and> a \<in> set parser \<and> dest a = Some d \<and> dflt a = Some v \<longrightarrow> hasattr ns d)
    \<and> (add_arguments home (Params sections) ArgumentParser = Inr parser \<longrightarrow>
         (\<exists>ns. parse_known_args float_of home fs argv parser subparser = Inr ns
            \<and> get_defaults float_of home argv (Params sections) = Inr ns
            \<and> ns \<noteq> []
            \<and> (\<forall>sec items n opts. sec \<in> set (Params sections) \<and> (sec, items) \<in> set (SECTIONS home)
                  \<and> (n, opts) \<in> set items \<longrightarrow>
                  getattr ns (replace_char CHR ''-'' CHR ''_'' n) = Inr (opt_default opts))))"
proof -
  let ?init = "init_namespace parser []"
  have p: "parse_known_args float_of home fs argv parser subparser = ap_parse_known_args float_of parser []"
    for fs
    using assms by (simp add: parse_known_args_def)
  have c: "ap_parse_known_args float_of parser [] = convert_defaults float_of parser ?init"
    by (simp add: ap_parse_known_args_def)
  have g: "hasattr ns d"
    if "parse_known_args float_of home fs argv parser subparser = Inr ns"
      and "a \<in> set parser" and "dest a = Some d" and "dflt a = Some v" for ns a d v
  proof -
    from that(1) have "convert_defaults float_of parser ?init = Inr ns" by (simp add: p c)
    then show ?thesis using init_namespace_hasattr [OF that(2-4)] by (rule convert_defaults_hasattr)
  qed
  have b: "\<exists>ns. parse_known_args float_of home fs argv parser subparser = Inr ns
            \<and> get_defaults float_of home argv (Params sections) = Inr ns
            \<and> ns \<noteq> []
            \<and> (\<forall>sec items n opts. sec \<in> set (Params sections) \<and> (sec, items) \<in> set (SECTIONS home)
                  \<and> (n, opts) \<in> set items \<longrightarrow>
                  getattr ns (replace_char CHR ''-'' CHR ''_'' n) = Inr (opt_default opts))"
    if built: "add_arguments home (Params sections) ArgumentParser = Inr parser"
  proof -
    have a: "ap_parse_known_args float_of parser [] = Inr ?init"
      by (simp add: c convert_defaults_id [OF built_defaults_typed [OF built]])
    have r: "parse_known_args float_of home fs argv parser subparser = Inr ?init"
      by (simp add: p a)
    from assms obtain prog where "argv = [prog]" by (cases argv) auto
    then have d: "get_defaults float_of home argv (Params sections) = Inr ?init"
      using built a by (simp add: get_defaults_def ArgumentParser_init_def)
    have v: "getattr ?init (replace_char CHR ''-'' CHR ''_'' n) = Inr (opt_default opts)"
      if "sec \<in> set (Params sections)" "(sec, items) \<in> set (SECTIONS home)" "(n, opts) \<in> set items"
      for sec items n opts
      using built_defaults [OF built that] by (simp add: getattr_def)
    have "(''general'', [(''config'', str_opt (CONFIG_FILE_NAME home)),
         (''logs-home'', str_opt (LOGS_HOME home)), (''verbose'', flag_opt), (''testing'', flag_opt),
         (''force'', flag_opt)]) \<in> set (SECTIONS home)" by (simp add: SECTIONS_def)
    from v [OF _ this, of "''verbose''" flag_opt] have "?init \<noteq> []"
      by (auto simp: Params_def getattr_def)
    with r d v show ?thesis by blast
  qed
  from p [of fs] p [of fs'] g b show ?thesis by auto
qed

lemma mono_parser_built:
  "add_arguments ''/home/user'' (Params MONO_PARAMS) ArgumentParser = Inr mono_parser"
  by code_simp

theorem parse_known_args_no_arguments_witness:
  "length [''dmm''] = 1
   \<and> add_arguments ''/home/user'' (Params MONO_PARAMS) ArgumentParser = Inr mono_parser
   \<and> parse_known_args example_float ''/home/user'' example_files [''dmm''] mono_parser True =
       get_defaults example_float ''/home/user'' [''dmm''] (Params MONO_PARAMS)
   \<and> parse_known_args example_float ''/home/user'' no_files [''dmm''] mono_parser True =
       parse_known_args example_float ''/home/user'' example_files [''dmm''] mono_parser True
   \<and> (\<exists>ns. parse_known_args example_float ''/home/user'' example_files [''dmm''] mono_parser True = Inr ns
         \<and> getattr ns ''logs_home'' = Inr (Atom (AStr ''/home/user/logs'')))"
proof -
  have h: "length [''dmm''] = 1" by simp
  note t = parse_known_args_no_arguments [OF h, of example_float "''/home/user''" example_files
      mono_parser True no_files MONO_PARAMS]
  from t have a: "parse_known_args example_float ''/home/user'' no_files [''dmm''] mono_parser True =
       parse_known_args example_float ''/home/user'' example_files [''dmm''] mono_parser True"
    by blast
  from t mono_parser_built obtain ns where
    r: "parse_known_args example_float ''/home/user'' example_files [''dmm''] mono_parser True = Inr ns"
    and d: "get_defaults example_float ''/home/user'' [''dmm''] (Params MONO_PARAMS) = Inr ns"
    and v: "\<forall>sec items n opts. sec \<in> set (Params MONO_PARAMS)
          \<and> (sec, items) \<in> set (SECTIONS ''/home/user'') \<and> (n, opts) \<in> set items \<longrightarrow>
          getattr ns (replace_char CHR ''-'' CHR ''_'' n) = Inr (opt_default opts)"
    by blast
  have "''general'' \<in> set (Params MONO_PARAMS)
      \<and> (''general'', [(''config'', str_opt (CONFIG_FILE_NAME ''/home/user'')),
         (''logs-home'', str_opt (LOGS_HOME ''/home/user'')), (''verbose'', flag_opt),
         (''testing'', flag_opt), (''force'', flag_opt)]) \<in> set (SECTIONS ''/home/user'')
      \<and> (''logs-home'', str_opt (LOGS_HOME ''/home/user'')) \<in>
          set [(''config'', str_opt (CONFIG_FILE_NAME ''/home/user'')),
         (''logs-home'', str_opt (LOGS_HOME ''/home/user'')), (''verbose'', flag_opt),
         (''testing'', flag_opt), (''force'', flag_opt)]"
    by (simp add: Params_def SECTIONS_def)
  with v have "getattr ns (replace_char CHR ''-'' CHR ''_'' ''logs-home'') =
      Inr (opt_default (str_opt (LOGS_HOME ''/home/user'')))" by blast
  then have g: "getattr ns ''logs_home'' = Inr (Atom (AStr ''/home/user/logs''))"
    by (simp add: replace_char_def str_opt_def LOGS_HOME_def path_join_def startswith_def)
  from r g have e: "\<exists>ns. parse_known_args example_float ''/home/user'' example_files [''dmm''] mono_parser True = Inr ns
         \<and> getattr ns ''logs_home'' = Inr (Atom (AStr ''/home/user/logs''))" by blast
  from r d have b: "parse_known_args example_float ''/home/user'' example_files [''dmm''] mono_parser True =
       get_defaults example_float ''/home/user'' [''dmm''] (Params MONO_PARAMS)" by simp
  show ?thesis by (intro conjI) (rule h mono_parser_built a b e)+
qed

text \<open>
  The claim as stated fails: with the parser \<^verbatim>\<open>Params(MONO_PARAMS)\<close> fills and no argument,
  the result holds all seven fields of the schema at their defaults; it is not empty.
\<close>

theorem parse_known_args_no_arguments_counterexample:
  "parse_known_args example_float ''/home/user'' no_files [''dmm''] mono_parser True =
     Inr [(''energy'', Atom (AInt (- 1))),
          (''energyioc_prefix'', Atom (AStr ''2bm:MCTOptics:'')),
          (''config'', Atom (AStr ''/home/user/logs/dmm.conf'')),
          (''force'', Atom (ABool False)),
          (''logs_home'', Atom (AStr ''/home/user/logs'')),
          (''testing'', Atom (ABool False)),
          (''verbose'', Atom (ABool False))]"
  by code_simp

end
